theory Spec2Isabelle
  imports Main
begin

section \<open>JavaScript strings and numbers used by the code generator\<close>

text \<open>
  The generator of \<^verbatim>\<open>vite/codegen/index.ts\<close> builds JavaScript text with template
  literals. Strings are modelled as \<^typ>\<open>string\<close>; a number interpolated into a template
  is printed in decimal. \<open>digit_char\<close> is applied to the digits 0 to 9 only.
\<close>

definition digit_char :: "nat \<Rightarrow> char" where
  "digit_char d = ''0123456789'' ! d"

fun string_of_nat :: "nat \<Rightarrow> string" where
  "string_of_nat n =
     (if n < 10 then [digit_char n] else string_of_nat (n div 10) @ [digit_char (n mod 10)])"

declare string_of_nat.simps [simp del]

definition string_of_int :: "int \<Rightarrow> string" where
  "string_of_int i = (if i < 0 then CHR ''-'' # string_of_nat (nat (- i)) else string_of_nat (nat i))"

definition squote :: string where
  "squote = [CHR 0x27]"

section \<open>Property names: \<^verbatim>\<open>wrapPropertyName\<close>, \<^verbatim>\<open>renderParamsInfo\<close>, \<^verbatim>\<open>renderParamsInfoType\<close>\<close>

text \<open>
  \<^verbatim>\<open>ParamInfo\<close> of \<^verbatim>\<open>../types\<close>: a name and an index (field \<open>pindex\<close> here, since
  a route has an \<^verbatim>\<open>index\<close> of its own); a negative index marks the catch-all parameter.
\<close>

record ParamInfo =
  name :: string
  pindex :: int

text \<open>
  The two character classes of the regular expression
  \<^verbatim>\<open>/^[^A-Za-z_$]|[^A-Za-z0-9$_]/\<close>, read as ranges of character codes.
\<close>

definition in_range :: "char \<Rightarrow> char \<Rightarrow> char \<Rightarrow> bool" where
  "in_range lo hi c = ((of_char lo :: nat) \<le> of_char c \<and> (of_char c :: nat) \<le> of_char hi)"

definition class_first :: "char \<Rightarrow> bool" where
  "class_first c =
     (in_range (CHR ''A'') (CHR ''Z'') c \<or> in_range (CHR ''a'') (CHR ''z'') c
      \<or> c = CHR ''_'' \<or> c = CHR ''$'')"

definition class_rest :: "char \<Rightarrow> bool" where
  "class_rest c =
     (in_range (CHR ''A'') (CHR ''Z'') c \<or> in_range (CHR ''a'') (CHR ''z'') c
      \<or> in_range (CHR ''0'') (CHR ''9'') c \<or> c = CHR ''$'' \<or> c = CHR ''_'')"

text \<open>
  \<^verbatim>\<open>regex.test(name)\<close>: the first alternative is anchored at the start of the name,
  the second one may match at any position.
\<close>

fun test_at :: "bool \<Rightarrow> string \<Rightarrow> bool" where
  "test_at start [] = False"
| "test_at start (c # cs) =
     ((start \<and> \<not> class_first c) \<or> \<not> class_rest c \<or> test_at False cs)"

definition wrapPropertyName :: "string \<Rightarrow> string" where
  "wrapPropertyName nm = (if test_at True nm then squote @ nm @ squote else nm)"

text \<open>
  \<^verbatim>\<open>renderParamsInfo\<close>. The loop state is \<^verbatim>\<open>(result, catchAll, sep)\<close>. The statement
  \<^verbatim>\<open>sep ||= ","\<close> assigns only when \<^verbatim>\<open>sep\<close> is falsy, that is the empty string.
  \<^verbatim>\<open>pathIndex\<close> is an optional string; it is truthy when it is given and not empty.
\<close>

definition opt_text :: "string option \<Rightarrow> string" where
  "opt_text s = (case s of None \<Rightarrow> ''undefined'' | Some t \<Rightarrow> t)"

definition truthy_opt :: "string option \<Rightarrow> bool" where
  "truthy_opt s = (case s of None \<Rightarrow> False | Some t \<Rightarrow> t \<noteq> [])"

fun params_loop :: "string option \<Rightarrow> ParamInfo list \<Rightarrow> string \<times> string \<times> string \<Rightarrow> string \<times> string \<times> string" where
  "params_loop pathIndex [] st = st"
| "params_loop pathIndex (p # ps) (result, catchAll, sep) =
     (if pindex p \<ge> 0 then
        params_loop pathIndex ps
          (result @ sep @ '' '' @ wrapPropertyName (name p) @ '': s'' @ string_of_int (pindex p + 1),
           catchAll,
           (if sep = [] then '','' else sep))
      else if truthy_opt pathIndex then params_loop pathIndex ps (result, name p, sep)
      else params_loop pathIndex ps (result, catchAll, sep))"

definition renderParamsInfo :: "ParamInfo list \<Rightarrow> string option \<Rightarrow> string" where
  "renderParamsInfo params pathIndex =
     (if params = [] then ''{}''
      else
        (case params_loop pathIndex params ([], [], ''{'') of
          (result, catchAll, sep) \<Rightarrow>
            (let result' =
                   (if catchAll \<noteq> [] then
                      result @ sep @ '' '' @ wrapPropertyName catchAll
                        @ '': pathname.slice('' @ opt_text pathIndex @ '')''
                    else result)
             in if result' \<noteq> [] then result' @ '' }'' else ''{}'')))"

fun type_loop :: "ParamInfo list \<Rightarrow> string \<Rightarrow> string" where
  "type_loop [] result = result"
| "type_loop (p # ps) result =
     type_loop ps (result @ '' '' @ wrapPropertyName (name p) @ '': string;'')"

definition renderParamsInfoType :: "ParamInfo list \<Rightarrow> string" where
  "renderParamsInfoType params =
     (if params = [] then ''{}'' else type_loop params ''{'' @ '' }'')"

text \<open>
  The words of the specification: a name is not a valid identifier when its first character
  is not a letter, an underscore or a dollar sign, or when it contains a character outside
  letters, digits, the dollar sign and the underscore.
\<close>

definition is_letter :: "char \<Rightarrow> bool" where
  "is_letter c = (c \<in> set ''ABCDEFGHIJKLMNOPQRSTUVWXYZabcdefghijklmnopqrstuvwxyz'')"

definition is_digit :: "char \<Rightarrow> bool" where
  "is_digit c = (c \<in> set ''0123456789'')"

definition invalid_identifier :: "string \<Rightarrow> bool" where
  "invalid_identifier nm =
     ((case nm of [] \<Rightarrow> False
        | c # cs \<Rightarrow> \<not> (is_letter c \<or> c = CHR ''_'' \<or> c = CHR ''$''))
      \<or> list_ex (\<lambda>c. \<not> (is_letter c \<or> is_digit c \<or> c = CHR ''$'' \<or> c = CHR ''_'')) nm)"

definition property_key :: "string \<Rightarrow> string" where
  "property_key nm = (if invalid_identifier nm then squote @ nm @ squote else nm)"

definition last_name :: "ParamInfo list \<Rightarrow> string" where
  "last_name ps = (case rev ps of [] \<Rightarrow> [] | p # qs \<Rightarrow> name p)"


section \<open>The route model\<close>

text \<open>
  \<^verbatim>\<open>RoutableFile\<close> and \<^verbatim>\<open>Route\<close> of \<^verbatim>\<open>../types\<close>, with the fields the generator reads.
  The field \<^verbatim>\<open>id\<close> is \<open>file_id\<close> here. Optional fields are options; an HTTP verb is its
  lower-case string.
\<close>

record RoutableFile =
  file_id :: string
  importPath :: string
  relativePath :: string
  verbs :: "string list option"

record Route =
  key :: string
  path :: string
  params :: "ParamInfo list option"
  handler :: "RoutableFile option"
  page :: "RoutableFile option"
  layouts :: "RoutableFile list"
  middleware :: "RoutableFile list"
  meta :: "RoutableFile option"
  index :: nat

text \<open>
  What is thrown: an \<^verbatim>\<open>Error\<close> of the generator with its message, the TypeError of a
  property read from \<^verbatim>\<open>null\<close> or \<^verbatim>\<open>undefined\<close>, or the SyntaxError of a generated
  module that is not JavaScript.
\<close>

datatype error = Error string | TypeError | SyntaxError

text \<open>\<^verbatim>\<open>handler?.verbs?.includes(verb)\<close>\<close>

definition handler_includes :: "RoutableFile option \<Rightarrow> string \<Rightarrow> bool" where
  "handler_includes h verb =
     (case h of None \<Rightarrow> False
      | Some f \<Rightarrow> (case verbs f of None \<Rightarrow> False | Some vs \<Rightarrow> verb \<in> set vs))"

text \<open>
  \<^verbatim>\<open>getVerbs\<close> of \<^verbatim>\<open>../utils/route\<close> is not among the sources; it is a parameter of
  \<^verbatim>\<open>renderRouteEntry\<close> and \<^verbatim>\<open>renderRouter\<close> here. Its result is an array of verbs:
  \<^verbatim>\<open>renderRouter\<close> calls \<^verbatim>\<open>map\<close> on it with no test before, and \<^verbatim>\<open>renderRouteEntry\<close> reads
  its \<^verbatim>\<open>length\<close> and iterates over it. In JavaScript every array is truthy, the empty one
  too; \<open>truthy_array\<close> is the value of an array as a condition.
\<close>

definition truthy_array :: "'a list \<Rightarrow> bool" where
  "truthy_array xs = True"

section \<open>The route template: \<^verbatim>\<open>renderRouteTemplate\<close>\<close>

text \<open>
  Modelled from the spec: the writer of \<^verbatim>\<open>./writer\<close>, which is not among the sources. A
  writer emits lines in order; the lines written to a branch are spliced into the output at
  the place where the branch was declared. The template module is the pair of the lines of
  its \<^verbatim>\<open>imports\<close> branch and the lines of its body; a tag is a nested element.
\<close>

datatype tag = Leaf string | Block string tag | NoTag

fun writeRouteTemplateTag :: "RoutableFile list \<Rightarrow> nat \<Rightarrow> (string \<times> string) list \<times> tag" where
  "writeRouteTemplateTag [] i = ([], NoTag)"
| "writeRouteTemplateTag (file # rest) i =
     (let isLast = (rest = []);
          tg = (if isLast then ''page'' else ''layout'' @ string_of_nat i)
      in if isLast then ([(tg, importPath file)], Leaf tg)
         else (case writeRouteTemplateTag rest (i + 1) of
                 (imports, inner) \<Rightarrow> ((tg, importPath file) # imports, Block tg inner)))"

definition renderRouteTemplate :: "Route \<Rightarrow> error + (string \<times> string) list \<times> tag" where
  "renderRouteTemplate route =
     (case page route of
        None \<Rightarrow> Inl (Error (''Route '' @ key route @ '' has no page to render''))
      | Some pg \<Rightarrow> Inr (writeRouteTemplateTag (layouts route @ [pg]) 1))"

section \<open>The dispatch functions: \<^verbatim>\<open>writeRouteEntryHandler\<close>\<close>

text \<open>
  The statements the handler-chain compiler emits:
  \<^item> \<open>ConstPage f\<close> is \<^verbatim>\<open>const f = () => new Response(page.stream(buildInput()), {...});\<close>
  \<^item> \<open>ReturnPage\<close> is \<^verbatim>\<open>return new Response(page.stream(buildInput()), {...});\<close>
  \<^item> \<open>ConstCall f m n\<close> is \<^verbatim>\<open>const f = () => call(m, n, context);\<close>
  \<^item> \<open>ReturnCall m n\<close> is \<^verbatim>\<open>return call(m, n, context);\<close>
\<close>

datatype js_stmt =
    ConstPage string
  | ReturnPage
  | ConstCall string string string
  | ReturnCall string string

text \<open>\<^verbatim>\<open>wrapFn\<close> is an optional string, tested for truthiness.\<close>

definition writePageResponse :: "string option \<Rightarrow> js_stmt" where
  "writePageResponse wrapFn =
     (if truthy_opt wrapFn then ConstPage (opt_text wrapFn) else ReturnPage)"

definition writeMiddleware :: "string \<Rightarrow> string \<Rightarrow> string option \<Rightarrow> js_stmt" where
  "writeMiddleware mw nxt wrapFn =
     (if truthy_opt wrapFn then ConstCall (opt_text wrapFn) mw nxt else ReturnCall mw nxt)"

text \<open>
  The loop \<^verbatim>\<open>let i = len; while (i--) { ... }\<close> over the middleware, from the last one to
  the first. Its state is \<^verbatim>\<open>currentName\<close> and the lines of the \<^verbatim>\<open>cont\<close> branch. The loop
  starts at the length of the list, so every index it reads is in range.
\<close>

fun mware_loop :: "RoutableFile list \<Rightarrow> nat \<Rightarrow> string \<Rightarrow> js_stmt list \<Rightarrow> js_stmt list" where
  "mware_loop mws 0 currentName cont = cont"
| "mware_loop mws (Suc i) currentName cont =
     (let nm = ''mware'' @ file_id (mws ! i);
          nextName = currentName;
          currentName' = (if i \<noteq> 0 then ''__'' @ nm else [])
      in mware_loop mws i currentName' (cont @ [writeMiddleware nm nextName (Some currentName')]))"

text \<open>
  A generated function: its name, its parameters and its body. The body is the \<^verbatim>\<open>cont\<close>
  branch, declared right after the function's opening line, followed by what was written to
  the writer itself.
\<close>

record js_function =
  fn_name :: string
  fn_params :: "string list"
  fn_body :: "js_stmt list"

definition finish_handler ::
  "Route \<Rightarrow> string \<Rightarrow> js_stmt list \<Rightarrow> js_stmt list \<Rightarrow> string \<Rightarrow> bool \<Rightarrow> js_function" where
  "finish_handler route verb cont body currentName hasBody =
     \<lparr> fn_name = verb @ string_of_nat (index route),
       fn_params = (if page route \<noteq> None then [''context'', ''buildInput''] else [''context'']),
       fn_body =
         (if \<not> hasBody then mware_loop (middleware route) (length (middleware route)) currentName cont
          else cont) @ body \<rparr>"

definition writeRouteEntryHandler :: "Route \<Rightarrow> string \<Rightarrow> error + js_function" where
  "writeRouteEntryHandler route verb =
     (let len = length (middleware route) in
      if page route \<noteq> None \<and> verb = ''get'' then
        (if handler_includes (handler route) verb then
           (let nm = verb @ ''Handler'';
                cont = [writePageResponse (Some ''__page'')]
            in if len \<noteq> 0 then
                 Inr (finish_handler route verb
                        (cont @ [writeMiddleware nm ''__page'' (Some (''__'' @ nm))]) [] (''__'' @ nm) False)
               else
                 Inr (finish_handler route verb cont [writeMiddleware nm ''__page'' None] ''__page'' True))
         else if len \<noteq> 0 then
           Inr (finish_handler route verb [writePageResponse (Some ''__page'')] [] ''__page'' False)
         else
           Inr (finish_handler route verb [writePageResponse None] [] ''__page'' True))
      else if handler route \<noteq> None then
        (let nm = verb @ ''Handler'';
             currentName = ''__'' @ nm;
             nextName = ''noContent''
         in if len \<noteq> 0 then
              Inr (finish_handler route verb [writeMiddleware nm nextName (Some currentName)] [] currentName False)
            else
              Inr (finish_handler route verb [] [writeMiddleware nm nextName None] currentName True))
      else Inl (Error (''Route '' @ key route @ '' has no handler for '' @ verb @ '' requests'')))"

section \<open>The route entry module: \<^verbatim>\<open>renderRouteEntry\<close>\<close>

text \<open>
  \<^verbatim>\<open>verb.toUpperCase()\<close> for a verb of the handler: an \<^verbatim>\<open>HttpVerb\<close>, a word of the letters
  a to z.
\<close>

definition upper_char :: "char \<Rightarrow> char" where
  "upper_char c = (if in_range (CHR ''a'') (CHR ''z'') c then char_of (of_char c - (32::nat)) else c)"

definition toUpperCase :: "string \<Rightarrow> string" where
  "toUpperCase s = map upper_char s"

text \<open>
  The entry module: the names imported from the runtime, the middleware imported, the verbs of
  the handler (each gives \<^verbatim>\<open>const <verb>Handler = normalize(<VERB>);\<close> and an import of
  \<^verbatim>\<open><VERB>\<close>), whether the page and the meta are imported, and the dispatch functions.
\<close>

record entry_module =
  runtimeImports :: "string list"
  middlewareImports :: "string list"
  handlerConsts :: "(string \<times> string) list"
  pageImport :: bool
  metaExport :: "string option"
  dispatchers :: "js_function list"

fun write_handlers :: "Route \<Rightarrow> string list \<Rightarrow> error + js_function list" where
  "write_handlers route [] = Inr []"
| "write_handlers route (verb # vs) =
     (case writeRouteEntryHandler route verb of
        Inl e \<Rightarrow> Inl e
      | Inr f \<Rightarrow> (case write_handlers route vs of Inl e \<Rightarrow> Inl e | Inr fs \<Rightarrow> Inr (f # fs)))"

definition renderRouteEntry :: "(Route \<Rightarrow> string list) \<Rightarrow> Route \<Rightarrow> error + entry_module" where
  "renderRouteEntry getVerbs route =
     (let vs = getVerbs route in
      if \<not> truthy_array vs then
        Inl (Error (''Route '' @ key route @ '' doesn't have a handler or page for any HTTP verbs''))
      else
          (case write_handlers route vs of
             Inl e \<Rightarrow> Inl e
           | Inr fs \<Rightarrow>
               Inr \<lparr> runtimeImports =
                       (if handler route \<noteq> None then [''normalize''] else [])
                       @ (if handler route \<noteq> None \<or> middleware route \<noteq> [] then [''call''] else [])
                       @ (if page route = None \<or> length vs > 1 then [''noContent''] else []),
                     middlewareImports = map (\<lambda>m. ''mware'' @ file_id m) (middleware route),
                     handlerConsts =
                       (case handler route of None \<Rightarrow> []
                        | Some f \<Rightarrow> (case verbs f of None \<Rightarrow> []
                            | Some hv \<Rightarrow> map (\<lambda>verb. (verb @ ''Handler'', toUpperCase verb)) hv)),
                     pageImport = (page route \<noteq> None),
                     metaExport = (case meta route of None \<Rightarrow> None
                                   | Some f \<Rightarrow> Some (''meta'' @ string_of_nat (index route))),
                     dispatchers = fs \<rparr>))"


section \<open>Running a dispatch function\<close>

text \<open>
  The meaning of a generated function body. Every \<^verbatim>\<open>const f = () => ...\<close> binds a
  continuation; the body of a continuation is evaluated when it is called, in the scope of the
  whole function. \<open>'r\<close> is what a continuation yields when called. The parameters are the
  runtime's \<^verbatim>\<open>call\<close> (given the name of the layer and what the next continuation yields),
  what the page response is, and the names bound outside the function (\<^verbatim>\<open>noContent\<close>).
  The result is \<open>None\<close> when the function is not a function that returns: a name declared
  twice (a SyntaxError), a name that is not bound or not yet initialised (a ReferenceError),
  or no \<^verbatim>\<open>return\<close>.
\<close>

datatype decl = DPage | DCall string string

fun consts_before :: "js_stmt list \<Rightarrow> (string \<times> decl) list" where
  "consts_before [] = []"
| "consts_before (ConstPage f # ss) = (f, DPage) # consts_before ss"
| "consts_before (ConstCall f m n # ss) = (f, DCall m n) # consts_before ss"
| "consts_before (ReturnPage # ss) = []"
| "consts_before (ReturnCall m n # ss) = []"

fun declared :: "js_stmt list \<Rightarrow> string list" where
  "declared [] = []"
| "declared (ConstPage f # ss) = f # declared ss"
| "declared (ConstCall f m n # ss) = f # declared ss"
| "declared (ReturnPage # ss) = declared ss"
| "declared (ReturnCall m n # ss) = declared ss"

fun first_return :: "js_stmt list \<Rightarrow> js_stmt option" where
  "first_return [] = None"
| "first_return (ConstPage f # ss) = first_return ss"
| "first_return (ConstCall f m n # ss) = first_return ss"
| "first_return (ReturnPage # ss) = Some ReturnPage"
| "first_return (ReturnCall m n # ss) = Some (ReturnCall m n)"

fun eval_name ::
  "(string \<Rightarrow> 'r \<Rightarrow> 'r) \<Rightarrow> 'r \<Rightarrow> (string \<rightharpoonup> 'r) \<Rightarrow> (string \<times> decl) list \<Rightarrow> string list
     \<Rightarrow> nat \<Rightarrow> string \<Rightarrow> 'r option" where
  "eval_name call pg globals decls names 0 n = None"
| "eval_name call pg globals decls names (Suc k) n =
     (case map_of decls n of
        Some DPage \<Rightarrow> Some pg
      | Some (DCall m nx) \<Rightarrow> map_option (call m) (eval_name call pg globals decls names k nx)
      | None \<Rightarrow> (if n \<in> set names then None else globals n))"

definition run_function ::
  "(string \<Rightarrow> 'r \<Rightarrow> 'r) \<Rightarrow> 'r \<Rightarrow> (string \<rightharpoonup> 'r) \<Rightarrow> js_stmt list \<Rightarrow> 'r option" where
  "run_function call pg globals body =
     (if \<not> distinct (declared body) then None
      else
        (case first_return body of
           Some ReturnPage \<Rightarrow> Some pg
         | Some (ReturnCall m nx) \<Rightarrow>
             map_option (call m)
               (eval_name call pg globals (consts_before body) (declared body) (Suc (length body)) nx)
         | _ \<Rightarrow> None))"

section \<open>Requests, responses and the signals\<close>

text \<open>
  What generated code throws: the two signals \<^verbatim>\<open>NotHandled\<close> and \<^verbatim>\<open>NotMatched\<close> imported
  from the runtime, or any other value. What a handler, a layer or a generated function does:
  it returns a value, \<open>None\<close> when that value is falsy, or it throws.
\<close>

datatype 'e thrown = NotHandled | NotMatched | Other 'e

datatype ('a, 'e) outcome = Returned "'a option" | Threw "'e thrown"

text \<open>
  What a handler throws besides the two signals is any JavaScript value: \<^verbatim>\<open>null\<close>,
  \<^verbatim>\<open>undefined\<close>, or a value with properties. Reading a property of \<^verbatim>\<open>null\<close> or
  \<^verbatim>\<open>undefined\<close> throws a TypeError; \<open>nullish\<close> says that what was thrown is one of the two.
\<close>

datatype 'o js_value = JsNull | JsUndefined | JsValue 'o

definition nullish :: "'o js_value thrown \<Rightarrow> bool" where
  "nullish err = (err = Other JsNull \<or> err = Other JsUndefined)"

text \<open>
  Modelled from the spec: \<^verbatim>\<open>call\<close> of the runtime (\<^verbatim>\<open>virtual:marko-run/internal\<close> is not
  among the sources). It invokes the layer with the next continuation and the context. A layer
  is given here by what it does for what the next continuation would yield. A response of the
  layer is the result; a layer that returns nothing, or that throws the decline signal
  \<^verbatim>\<open>NotMatched\<close>, leads to the next continuation; every other throw is passed on.
\<close>

definition call_layer ::
  "(('a, 'e) outcome \<Rightarrow> ('a, 'e) outcome) \<Rightarrow> ('a, 'e) outcome \<Rightarrow> ('a, 'e) outcome" where
  "call_layer layer nxt =
     (case layer nxt of
        Returned (Some r) \<Rightarrow> Returned (Some r)
      | Returned None \<Rightarrow> nxt
      | Threw NotMatched \<Rightarrow> nxt
      | Threw e \<Rightarrow> Threw e)"


section \<open>The shape of a dispatch function\<close>

text \<open>
  Names for stating what \<^verbatim>\<open>writeRouteEntryHandler\<close> emits. \<open>base_stmts\<close> are the
  statements of the handler and page step and \<open>base_name\<close> is the continuation that stands
  for that step when there is middleware; \<open>chain ms cur\<close> are the continuations of the
  middleware \<open>ms\<close> around the continuation \<open>cur\<close>, and \<open>top ms cur\<close> is the outermost of
  them; \<open>inner_step\<close> is what the handler and page step yields.
\<close>

fun top :: "RoutableFile list \<Rightarrow> string \<Rightarrow> string" where
  "top [] cur = cur"
| "top (m # ms) cur = ''__mware'' @ file_id m"

fun chain :: "RoutableFile list \<Rightarrow> string \<Rightarrow> js_stmt list" where
  "chain [] cur = []"
| "chain (m # ms) cur =
     chain ms cur @ [ConstCall (''__mware'' @ file_id m) (''mware'' @ file_id m) (top ms cur)]"


definition base_name :: "Route \<Rightarrow> string \<Rightarrow> string" where
  "base_name route verb =
     (if page route \<noteq> None \<and> verb = ''get'' \<and> \<not> handler_includes (handler route) verb
      then ''__page'' else ''__'' @ verb @ ''Handler'')"

definition base_stmts :: "Route \<Rightarrow> string \<Rightarrow> js_stmt list" where
  "base_stmts route verb =
     (if page route \<noteq> None \<and> verb = ''get'' then
        (if handler_includes (handler route) verb
         then [ConstPage ''__page'', ConstCall (''__'' @ verb @ ''Handler'') (verb @ ''Handler'') ''__page'']
         else [ConstPage ''__page''])
      else [ConstCall (''__'' @ verb @ ''Handler'') (verb @ ''Handler'') ''noContent''])"


fun chain_decls :: "RoutableFile list \<Rightarrow> string \<Rightarrow> (string \<times> decl) list" where
  "chain_decls [] cur = []"
| "chain_decls (m # ms) cur =
     chain_decls ms cur @ [(''__mware'' @ file_id m, DCall (''mware'' @ file_id m) (top ms cur))]"


definition inner_step :: "(string \<Rightarrow> 'r \<Rightarrow> 'r) \<Rightarrow> 'r \<Rightarrow> 'r \<Rightarrow> Route \<Rightarrow> string \<Rightarrow> 'r" where
  "inner_step call pg nc route verb =
     (if page route \<noteq> None \<and> verb = ''get'' then
        (if handler_includes (handler route) verb then call (verb @ ''Handler'') pg else pg)
      else call (verb @ ''Handler'') nc)"


text \<open>A route with a page, a handler for two verbs and three middleware, for the examples.\<close>

definition demo_file :: "string \<Rightarrow> RoutableFile" where
  "demo_file i = \<lparr> file_id = i, importPath = ''src/routes/item/file'' @ i,
                   relativePath = ''item/file'' @ i, verbs = None \<rparr>"

definition demo_route :: Route where
  "demo_route =
     \<lparr> key = ''item'', path = ''/item'', params = None,
       handler = Some ((demo_file ''1'') \<lparr> verbs := Some [''get'', ''post''] \<rparr>),
       page = Some (demo_file ''2''), layouts = [],
       middleware = [demo_file ''3'', demo_file ''4'', demo_file ''5''],
       meta = None, index = 7 \<rparr>"

text \<open>A route without a page whose handler file implements no verb.\<close>

definition no_verbs_route :: Route where
  "no_verbs_route =
     demo_route \<lparr> page := None, handler := Some ((demo_file ''1'') \<lparr> verbs := Some [] \<rparr>),
                  middleware := [] \<rparr>"


section \<open>The route trie and the matcher: \<^verbatim>\<open>renderMatch\<close>, \<^verbatim>\<open>writeRouterVerb\<close>\<close>

text \<open>
  \<^verbatim>\<open>renderMatch\<close>: the object literal that the matcher returns for a route, as text.
\<close>

definition renderMatch :: "string \<Rightarrow> Route \<Rightarrow> string option \<Rightarrow> string" where
  "renderMatch verb route pathIndex =
     (let handler_text = verb @ string_of_nat (index route);
          params_text = (case params route of None \<Rightarrow> ''{}''
                         | Some ps \<Rightarrow> (if ps \<noteq> [] then renderParamsInfo ps pathIndex else ''{}''));
          meta_text = (if meta route \<noteq> None then ''meta'' @ string_of_nat (index route) else ''{}'')
      in ''{ handler: '' @ handler_text @ '', params: '' @ params_text @ '', meta: '' @ meta_text @ '' }'')"

text \<open>
  \<^verbatim>\<open>RouteTrie\<close> of \<^verbatim>\<open>../types\<close>, with the fields \<^verbatim>\<open>writeRouterVerb\<close> reads: the key of the
  node, the route that ends at the node, the literal children (the values of the \<^verbatim>\<open>static\<close>
  map, in the order of the map), the dynamic child, and the catch-all route.
\<close>

datatype RouteTrie =
  RouteTrie (node_key: string) (node_route: "Route option") (static: "RouteTrie list option")
    (dynamic: "RouteTrie option") (catchAll: "Route option")

text \<open>
  The statements the trie-to-code compiler emits. \<^verbatim>\<open>offset\<close> is a number or the name of an
  index variable. The strings the code reads from the pathname:
  \<^item> \<open>SliceEnd off i\<close> is \<^verbatim>\<open>pathname.slice(off, i ? -1 : len)\<close>
  \<^item> \<open>SliceSeg off i\<close> is \<^verbatim>\<open>pathname.slice(off, i - 1)\<close>
  \<^item> \<open>Seg s\<close> is the segment variable \<^verbatim>\<open>s\<close>

  The conditions: \<open>LenIs1\<close> is \<^verbatim>\<open>len === 1\<close>, \<open>LenGt1\<close> is \<^verbatim>\<open>len > 1\<close>, \<open>AtEnd i\<close> is
  \<^verbatim>\<open>!i || i === len\<close>, \<open>Inner i\<close> is \<^verbatim>\<open>i && i !== len\<close>, \<open>EqLower v k\<close> is
  \<^verbatim>\<open>v.toLowerCase() === 'k'\<close> and \<open>NonEmpty v\<close> is \<^verbatim>\<open>v\<close> as a condition.

  The statements: \<open>ConstLen\<close> is \<^verbatim>\<open>const len = pathname.length;\<close>, \<open>ConstIndex i off\<close> is
  \<^verbatim>\<open>const i = pathname.indexOf('/', off) + 1;\<close>, \<open>ConstSeg s v\<close> is \<^verbatim>\<open>const s = v;\<close>,
  \<open>If\<close> and \<open>IfElse\<close> are blocks, \<open>Switch v cases\<close> is
  \<^verbatim>\<open>switch (v.toLowerCase()) { case 'k': ... }\<close> with the cases in order, none of which ends
  in a \<^verbatim>\<open>break\<close>, \<open>Return m c\<close> is \<^verbatim>\<open>return m; // c\<close> and \<open>ReturnNull\<close> is
  \<^verbatim>\<open>return null;\<close>.
\<close>

datatype offset = Num nat | Name string

datatype strexp = SliceEnd offset string | SliceSeg offset string | Seg string

datatype cond = LenIs1 | LenGt1 | AtEnd string | Inner string | EqLower strexp string | NonEmpty strexp

datatype stmt =
    ConstLen
  | ConstIndex string offset
  | ConstSeg string strexp
  | If cond "stmt list"
  | IfElse cond "stmt list" "stmt list"
  | Switch strexp "(string \<times> stmt list) list"
  | Return string string
  | ReturnNull

text \<open>\<^verbatim>\<open>String(offset)\<close>\<close>

definition offset_text :: "offset \<Rightarrow> string" where
  "offset_text off = (case off of Num n \<Rightarrow> string_of_nat n | Name v \<Rightarrow> v)"

text \<open>\<^verbatim>\<open>return ${renderMatch(verb, route, pathIndex)}; // ${route.path}\<close>\<close>

definition return_match :: "string \<Rightarrow> Route \<Rightarrow> string option \<Rightarrow> stmt" where
  "return_match verb r pathIndex = Return (renderMatch verb r pathIndex) (path r)"

text \<open>
  The loop over \<^verbatim>\<open>trie.static.values()\<close>: \<^verbatim>\<open>terminal\<close> collects the children with a
  route, \<^verbatim>\<open>children\<close> those with a \<^verbatim>\<open>static\<close>, \<^verbatim>\<open>dynamic\<close> or \<^verbatim>\<open>catchAll\<close> of their own.
  A list that stays \<^verbatim>\<open>undefined\<close> is the empty list here.
\<close>

definition has_deeper :: "RouteTrie \<Rightarrow> bool" where
  "has_deeper t = (static t \<noteq> None \<or> dynamic t \<noteq> None \<or> catchAll t \<noteq> None)"

definition terminal_of :: "RouteTrie \<Rightarrow> RouteTrie list" where
  "terminal_of t = (case static t of None \<Rightarrow> [] | Some cs \<Rightarrow> filter (\<lambda>c. node_route c \<noteq> None) cs)"

definition children_of :: "RouteTrie \<Rightarrow> RouteTrie list" where
  "children_of t = (case static t of None \<Rightarrow> [] | Some cs \<Rightarrow> filter has_deeper cs)"

text \<open>\<^verbatim>\<open>dynamic?.route\<close>, \<^verbatim>\<open>dynamic?.static || dynamic?.dynamic\<close>, and the same with
  \<^verbatim>\<open>|| dynamic?.catchAll\<close>.\<close>

definition dyn_route :: "RouteTrie \<Rightarrow> Route option" where
  "dyn_route t = (case dynamic t of None \<Rightarrow> None | Some d \<Rightarrow> node_route d)"

definition dyn_names :: "RouteTrie \<Rightarrow> bool" where
  "dyn_names t = (case dynamic t of None \<Rightarrow> False | Some d \<Rightarrow> static d \<noteq> None \<or> dynamic d \<noteq> None)"

definition dyn_deeper :: "RouteTrie \<Rightarrow> bool" where
  "dyn_deeper t = (case dynamic t of None \<Rightarrow> False | Some d \<Rightarrow> has_deeper d)"

text \<open>
  The block \<^verbatim>\<open>if (!i || i === len) { ... }\<close>: the segment variable when the dynamic child
  has a route, the terminal children as a \<^verbatim>\<open>switch\<close> when there is more than one and as one
  \<^verbatim>\<open>if\<close> otherwise, then the route of the dynamic child.
\<close>

definition terminal_stmts :: "string \<Rightarrow> strexp \<Rightarrow> RouteTrie list \<Rightarrow> stmt list" where
  "terminal_stmts verb v terminal =
     (if length terminal > 1 then
        [Switch v (map (\<lambda>c. (node_key c, [return_match verb (the (node_route c)) None])) terminal)]
      else
        map (\<lambda>c. If (EqLower v (node_key c)) [return_match verb (the (node_route c)) None]) terminal)"

definition at_end_stmts :: "string \<Rightarrow> RouteTrie \<Rightarrow> offset \<Rightarrow> string \<Rightarrow> string \<Rightarrow> stmt list" where
  "at_end_stmts verb trie off idx segment =
     (let value0 = SliceEnd off idx;
          v = (if dyn_route trie \<noteq> None then Seg segment else value0)
      in (if dyn_route trie \<noteq> None then [ConstSeg segment value0] else [])
         @ terminal_stmts verb v (terminal_of trie)
         @ (case dyn_route trie of None \<Rightarrow> []
            | Some r \<Rightarrow> [If (NonEmpty v) [return_match verb r None]]))"

text \<open>
  The block for a path that goes on: the segment variable when the dynamic child has literal
  or dynamic children, the literal children (each with the code of its subtree, \<open>kids\<close>) as a
  \<^verbatim>\<open>switch\<close> when there is more than one and as one \<^verbatim>\<open>if\<close> otherwise, then the subtree of
  the dynamic child (\<open>dyn_code\<close>).
\<close>

definition child_stmts :: "strexp \<Rightarrow> (string \<times> stmt list) list \<Rightarrow> stmt list" where
  "child_stmts v kids =
     (if length kids > 1 then [Switch v kids]
      else map (\<lambda>(k, code). If (EqLower v k) code) kids)"

definition inner_stmts ::
  "RouteTrie \<Rightarrow> offset \<Rightarrow> string \<Rightarrow> string \<Rightarrow> (string \<times> stmt list) list \<Rightarrow> stmt list \<Rightarrow> stmt list" where
  "inner_stmts trie off idx segment kids dyn_code =
     (let value0 = SliceSeg off idx;
          v = (if dyn_names trie then Seg segment else value0)
      in (if dyn_names trie then [ConstSeg segment value0] else [])
         @ child_stmts v kids
         @ (if dyn_deeper trie then [If (NonEmpty v) dyn_code] else []))"

text \<open>
  The code of a node with literal or dynamic children: the index of the next slash, the block
  for a path that ends with this segment, and the block for a path that goes on, which is the
  \<^verbatim>\<open>else\<close> of the first one when both are there.
\<close>

definition node_stmts ::
  "string \<Rightarrow> RouteTrie \<Rightarrow> offset \<Rightarrow> nat \<Rightarrow> (string \<times> stmt list) list \<Rightarrow> stmt list \<Rightarrow> stmt list" where
  "node_stmts verb trie off nxt kids dyn_code =
     (let idx = ''i'' @ string_of_nat nxt;
          segment = ''s'' @ string_of_nat nxt
      in if static trie \<noteq> None \<or> dynamic trie \<noteq> None then
           ConstIndex idx off #
           (if terminal_of trie \<noteq> [] \<or> dyn_route trie \<noteq> None then
              (if children_of trie \<noteq> [] \<or> dyn_deeper trie then
                 [IfElse (AtEnd idx) (at_end_stmts verb trie off idx segment)
                    (inner_stmts trie off idx segment kids dyn_code)]
               else [If (AtEnd idx) (at_end_stmts verb trie off idx segment)])
            else if children_of trie \<noteq> [] \<or> dyn_deeper trie then
              [If (Inner idx) (inner_stmts trie off idx segment kids dyn_code)]
            else [])
         else [])"

text \<open>\<^verbatim>\<open>typeof offset === "string" ? index : offset + child.key.length + 1\<close>\<close>

definition child_offset :: "offset \<Rightarrow> string \<Rightarrow> RouteTrie \<Rightarrow> offset" where
  "child_offset off idx c =
     (case off of Name v \<Rightarrow> Name idx | Num n \<Rightarrow> Num (n + length (node_key c) + 1))"

text \<open>
  \<^verbatim>\<open>writeRouterVerb\<close>. At level 0 the code starts with \<^verbatim>\<open>len\<close> and the route of the root,
  or wraps the node in \<^verbatim>\<open>if (len > 1)\<close>; after the blocks are closed comes the return of
  the catch-all route, or \<^verbatim>\<open>return null\<close> at level 0.
\<close>

function writeRouterVerb :: "RouteTrie \<Rightarrow> string \<Rightarrow> nat \<Rightarrow> offset \<Rightarrow> stmt list" where
  "writeRouterVerb trie verb level off =
     (let nxt = level + 1;
          idx = ''i'' @ string_of_nat nxt;
          node =
            node_stmts verb trie off nxt
              (map (\<lambda>c. (node_key c, writeRouterVerb c verb nxt (child_offset off idx c)))
                 (children_of trie))
              (if dyn_deeper trie then writeRouterVerb (the (dynamic trie)) verb nxt (Name idx) else []);
          tail =
            (case catchAll trie of
               Some r \<Rightarrow> [return_match verb r (Some (offset_text off))]
             | None \<Rightarrow> (if level = 0 then [ReturnNull] else []))
      in if level = 0 then
           ConstLen #
           (case node_route trie of
              Some r \<Rightarrow> If LenIs1 [return_match verb r None] # node
            | None \<Rightarrow> (if static trie \<noteq> None \<or> dynamic trie \<noteq> None then [If LenGt1 node] else node))
           @ tail
         else node @ tail)"
  by pat_completeness auto
termination
proof -
  have in_list: "size c < Suc (size_list size cs)" if "c \<in> set cs" for c :: RouteTrie and cs
    using that by (induction cs) auto
  have child: "size c < size t" if mem: "c \<in> set (children_of t)" for c t
  proof (cases t)
    case (RouteTrie k r st dy ca)
    then obtain cs where "st = Some cs" and "c \<in> set cs"
      using mem by (auto simp: children_of_def split: option.splits)
    then show ?thesis using in_list [of c cs] RouteTrie by simp
  qed
  have dyn: "size d < size t" if "dynamic t = Some d" for d t
    using that by (cases t) auto
  show ?thesis
    by (relation "measure (\<lambda>(t, v, l, off). size t)")
       (auto simp: child dyn dyn_deeper_def split: option.splits)
qed

declare writeRouterVerb.simps [simp del]

section \<open>Running a matcher\<close>

text \<open>
  \<^verbatim>\<open>toLowerCase\<close>, \<^verbatim>\<open>slice\<close> with its clamping and its negative indices, and
  \<^verbatim>\<open>indexOf\<close> of a character from a position, \<open>- 1\<close> when it is not found.

  A character is a code unit from 0 to 255 here, read as Latin-1; the pathname of a URL holds
  ASCII characters only. On these code units \<^verbatim>\<open>toLowerCase\<close> adds 32 to the letters A to Z
  and to the letters from U+00C0 to U+00DE other than the multiplication sign U+00D7, and
  leaves every other code unit as it is.
\<close>

definition lower_char :: "char \<Rightarrow> char" where
  "lower_char c =
     (if in_range (CHR ''A'') (CHR ''Z'') c
         \<or> (in_range (CHR 0xC0) (CHR 0xDE) c \<and> c \<noteq> CHR 0xD7)
      then char_of (of_char c + (32::nat)) else c)"

definition toLowerCase :: "string \<Rightarrow> string" where
  "toLowerCase s = map lower_char s"

definition js_slice :: "string \<Rightarrow> int \<Rightarrow> int \<Rightarrow> string" where
  "js_slice p a b =
     (let n = int (length p);
          from = (if a < 0 then max (n + a) 0 else min a n);
          to = (if b < 0 then max (n + b) 0 else min b n)
      in take (nat (to - from)) (drop (nat from) p))"

definition indexOf :: "string \<Rightarrow> char \<Rightarrow> nat \<Rightarrow> int" where
  "indexOf p c from =
     (let rest = drop from p; k = length (takeWhile (\<lambda>x. x \<noteq> c) rest)
      in if k = length rest then - 1 else int (from + k))"

text \<open>
  The variables in scope: whether \<^verbatim>\<open>len\<close> is declared, the index variables and the segment
  variables. A block ends by returning a match expression (its text) or \<^verbatim>\<open>null\<close>, by
  falling off its end, or with a ReferenceError for a variable that is not declared.
\<close>

record env =
  has_len :: bool
  ivars :: "string \<rightharpoonup> nat"
  svars :: "string \<rightharpoonup> string"

datatype result = Done "string option" | Fall | Crash

definition eval_offset :: "env \<Rightarrow> offset \<Rightarrow> nat option" where
  "eval_offset e off = (case off of Num n \<Rightarrow> Some n | Name v \<Rightarrow> ivars e v)"

definition eval_str :: "string \<Rightarrow> env \<Rightarrow> strexp \<Rightarrow> string option" where
  "eval_str p e x =
     (case x of
        SliceEnd off i \<Rightarrow>
          (case (eval_offset e off, ivars e i) of
             (Some s, Some iv) \<Rightarrow>
               (if iv \<noteq> 0 then Some (js_slice p (int s) (- 1))
                else if has_len e then Some (js_slice p (int s) (int (length p))) else None)
           | _ \<Rightarrow> None)
      | SliceSeg off i \<Rightarrow>
          (case (eval_offset e off, ivars e i) of
             (Some s, Some iv) \<Rightarrow> Some (js_slice p (int s) (int iv - 1))
           | _ \<Rightarrow> None)
      | Seg v \<Rightarrow> svars e v)"

definition eval_cond :: "string \<Rightarrow> env \<Rightarrow> cond \<Rightarrow> bool option" where
  "eval_cond p e c =
     (case c of
        LenIs1 \<Rightarrow> (if has_len e then Some (length p = 1) else None)
      | LenGt1 \<Rightarrow> (if has_len e then Some (length p > 1) else None)
      | AtEnd i \<Rightarrow>
          (case ivars e i of None \<Rightarrow> None
           | Some iv \<Rightarrow> (if iv = 0 then Some True
                        else if has_len e then Some (iv = length p) else None))
      | Inner i \<Rightarrow>
          (case ivars e i of None \<Rightarrow> None
           | Some iv \<Rightarrow> (if iv = 0 then Some False
                        else if has_len e then Some (iv \<noteq> length p) else None))
      | EqLower x k \<Rightarrow> map_option (\<lambda>v. toLowerCase v = k) (eval_str p e x)
      | NonEmpty x \<Rightarrow> map_option (\<lambda>v. v \<noteq> []) (eval_str p e x))"

text \<open>
  A \<^verbatim>\<open>const\<close> is in scope to the end of its block. A \<^verbatim>\<open>switch\<close> runs from the first case
  whose label is the value, through every later case, until a statement returns.
\<close>

fun exec :: "string \<Rightarrow> env \<Rightarrow> stmt list \<Rightarrow> result"
  and exec_cases :: "string \<Rightarrow> env \<Rightarrow> string \<Rightarrow> bool \<Rightarrow> (string \<times> stmt list) list \<Rightarrow> result" where
  "exec p e [] = Fall"
| "exec p e (ConstLen # rest) = exec p (e \<lparr> has_len := True \<rparr>) rest"
| "exec p e (ConstIndex i off # rest) =
     (case eval_offset e off of
        None \<Rightarrow> Crash
      | Some s \<Rightarrow> exec p (e \<lparr> ivars := (ivars e)(i \<mapsto> nat (indexOf p (CHR ''/'') s + 1)) \<rparr>) rest)"
| "exec p e (ConstSeg v x # rest) =
     (case eval_str p e x of
        None \<Rightarrow> Crash
      | Some t \<Rightarrow> exec p (e \<lparr> svars := (svars e)(v \<mapsto> t) \<rparr>) rest)"
| "exec p e (If c body # rest) =
     (case eval_cond p e c of
        None \<Rightarrow> Crash
      | Some b \<Rightarrow>
          (if b then (case exec p e body of Fall \<Rightarrow> exec p e rest | r \<Rightarrow> r)
           else exec p e rest))"
| "exec p e (IfElse c body other # rest) =
     (case eval_cond p e c of
        None \<Rightarrow> Crash
      | Some b \<Rightarrow>
          (if b then (case exec p e body of Fall \<Rightarrow> exec p e rest | r \<Rightarrow> r)
           else (case exec p e other of Fall \<Rightarrow> exec p e rest | r \<Rightarrow> r)))"
| "exec p e (Switch x cases # rest) =
     (case eval_str p e x of
        None \<Rightarrow> Crash
      | Some v \<Rightarrow>
          (case exec_cases p e (toLowerCase v) False cases of Fall \<Rightarrow> exec p e rest | r \<Rightarrow> r))"
| "exec p e (Return text comment # rest) = Done (Some text)"
| "exec p e (ReturnNull # rest) = Done None"
| "exec_cases p e v started [] = Fall"
| "exec_cases p e v started ((k, body) # cs) =
     (if started \<or> k = v then
        (case exec p e body of Fall \<Rightarrow> exec_cases p e v True cs | r \<Rightarrow> r)
      else exec_cases p e v False cs)"

text \<open>
  \<open>exec\<close> keeps a match expression as the text that \<^verbatim>\<open>renderMatch\<close> wrote. That text is
  not always JavaScript: \<^verbatim>\<open>renderParamsInfo\<close> starts every entry of the params object with
  \<^verbatim>\<open>{\<close>, since its separator never becomes the comma, so the object of a route with two or
  more params (\<^verbatim>\<open>{ a: s1{ id: s2 }\<close>) has more opening braces than closing ones, and a
  module with such a route does not load. \<open>return_texts\<close> are the match expressions of a piece
  of code, and \<open>parses\<close> says that each of them has as many closing braces as opening ones
  (names that hold a brace themselves are left aside).
\<close>

fun return_texts :: "stmt list \<Rightarrow> string list"
  and case_texts :: "(string \<times> stmt list) list \<Rightarrow> string list" where
  "return_texts [] = []"
| "return_texts (ConstLen # rest) = return_texts rest"
| "return_texts (ConstIndex i off # rest) = return_texts rest"
| "return_texts (ConstSeg v x # rest) = return_texts rest"
| "return_texts (If c body # rest) = return_texts body @ return_texts rest"
| "return_texts (IfElse c body other # rest) = return_texts body @ return_texts other @ return_texts rest"
| "return_texts (Switch x cases # rest) = case_texts cases @ return_texts rest"
| "return_texts (Return text comment # rest) = text # return_texts rest"
| "return_texts (ReturnNull # rest) = return_texts rest"
| "case_texts [] = []"
| "case_texts ((k, body) # cs) = return_texts body @ case_texts cs"

definition balanced :: "string \<Rightarrow> bool" where
  "balanced text = (count_list text (CHR ''{'') = count_list text (CHR ''}''))"

definition parses :: "stmt list \<Rightarrow> bool" where
  "parses code = list_all balanced (return_texts code)"

text \<open>
  The matcher of a verb, run on a pathname: the code of the root, with no variable in scope.
  There is no matcher to run when the code does not parse.
\<close>

definition env0 :: env where
  "env0 = \<lparr> has_len = False, ivars = Map.empty, svars = Map.empty \<rparr>"

definition matcher :: "RouteTrie \<Rightarrow> string \<Rightarrow> string \<Rightarrow> error + result" where
  "matcher trie verb pathname =
     (let code = writeRouterVerb trie verb 0 (Num 1)
      in if parses code then Inr (exec pathname env0 code) else Inl SyntaxError)"


section \<open>The router module: \<^verbatim>\<open>renderRouter\<close>\<close>

text \<open>
  \<^verbatim>\<open>RouterOptions\<close> and \<^verbatim>\<open>BuiltRoutes\<close> of \<^verbatim>\<open>../types\<close>. The special routes are kept
  in the order of \<^verbatim>\<open>Object.values\<close>, under the reserved keys \<^verbatim>\<open>404\<close> and \<^verbatim>\<open>500\<close>. That these
  are the values of \<^verbatim>\<open>RoutableFileTypes.NotFound\<close> and \<^verbatim>\<open>RoutableFileTypes.Error\<close>
  (\<^verbatim>\<open>../constants\<close>, not among the sources) is taken from the specification; the generated
  text names the pages \<^verbatim>\<open>page404\<close> and \<^verbatim>\<open>page500\<close>.
\<close>

datatype TrailingSlashes = RedirectWithout | RedirectWith | RewriteWithout | RewriteWith

record RouterOptions =
  trailingSlashes :: TrailingSlashes

record BuiltRoutes =
  route_list :: "Route list"
  special :: "(string \<times> Route) list"

text \<open>
  The generated module, by the parts of its text that depend on the routes and the options:
  the imports, the \<^verbatim>\<open>case\<close> of each verb in \<^verbatim>\<open>match\<close>, whether \<^verbatim>\<open>invoke\<close> has the
  not-found part and the error-page part, and which trailing-slash code \<^verbatim>\<open>fetch\<close> has.
\<close>

record router_module =
  route_imports :: "(string list \<times> string) list"
  special_imports :: "string list"
  matchers :: "(string \<times> stmt list) list"
  not_found_page :: bool
  error_page :: bool
  slashes :: TrailingSlashes

text \<open>
  The loop over \<^verbatim>\<open>routes.list\<close> that writes the imports: for each route the names imported
  (one for each verb of \<^verbatim>\<open>getVerbs\<close>, and the meta) and the key of the route.
\<close>

definition router_imports :: "(Route \<Rightarrow> string list) \<Rightarrow> Route list \<Rightarrow> (string list \<times> string) list" where
  "router_imports getVerbs rs =
     map (\<lambda>route.
            (map (\<lambda>verb. verb @ string_of_nat (index route)) (getVerbs route)
               @ (if meta route \<noteq> None then [''meta'' @ string_of_nat (index route)] else []),
             key route)) rs"

text \<open>
  The loop over \<^verbatim>\<open>httpVerbs\<close>. The list of verbs (\<^verbatim>\<open>../constants\<close>), \<^verbatim>\<open>hasVerb\<close>
  (\<^verbatim>\<open>../utils/route\<close>) and \<^verbatim>\<open>createRouteTrie\<close> (\<^verbatim>\<open>../routes/routeTrie\<close>) are not among
  the sources; they are parameters.
\<close>

fun router_verbs ::
  "(Route \<Rightarrow> string \<Rightarrow> bool) \<Rightarrow> (Route list \<Rightarrow> error + RouteTrie) \<Rightarrow> Route list \<Rightarrow> string list
     \<Rightarrow> error + (string \<times> stmt list) list" where
  "router_verbs hasVerb createRouteTrie rs [] = Inr []"
| "router_verbs hasVerb createRouteTrie rs (verb # vs) =
     (let filteredRoutes = filter (\<lambda>route. hasVerb route verb) rs in
      if filteredRoutes \<noteq> [] then
        (case createRouteTrie filteredRoutes of
           Inl e \<Rightarrow> Inl e
         | Inr trie \<Rightarrow>
             (case router_verbs hasVerb createRouteTrie rs vs of
                Inl e \<Rightarrow> Inl e
              | Inr ms \<Rightarrow> Inr ((verb, writeRouterVerb trie verb 0 (Num 1)) # ms)))
      else router_verbs hasVerb createRouteTrie rs vs)"

definition renderRouter ::
  "string list \<Rightarrow> (Route \<Rightarrow> string list) \<Rightarrow> (Route \<Rightarrow> string \<Rightarrow> bool)
     \<Rightarrow> (Route list \<Rightarrow> error + RouteTrie)
     \<Rightarrow> BuiltRoutes \<Rightarrow> RouterOptions option \<Rightarrow> error + router_module" where
  "renderRouter httpVerbs getVerbs hasVerb createRouteTrie routes options =
     (let opts = (case options of None \<Rightarrow> \<lparr> trailingSlashes = RedirectWithout \<rparr> | Some given \<Rightarrow> given)
      in (case router_verbs hasVerb createRouteTrie (route_list routes) httpVerbs of
                Inl e \<Rightarrow> Inl e
              | Inr ms \<Rightarrow>
                  Inr \<lparr> route_imports = router_imports getVerbs (route_list routes),
                        special_imports = map (\<lambda>(k, r). key r) (special routes),
                        matchers = ms,
                        not_found_page = (map_of (special routes) ''404'' \<noteq> None),
                        error_page = (map_of (special routes) ''500'' \<noteq> None),
                        slashes = trailingSlashes opts \<rparr>))"

section \<open>The generated \<^verbatim>\<open>match\<close>, \<^verbatim>\<open>invoke\<close> and \<^verbatim>\<open>fetch\<close>\<close>

text \<open>
  \<^verbatim>\<open>match(method, pathname)\<close>: an empty pathname becomes \<^verbatim>\<open>/\<close>, a pathname that does not
  start with a slash gets one, and the \<^verbatim>\<open>switch\<close> on the lower-case method runs the matcher
  of the verb; after the \<^verbatim>\<open>switch\<close> comes \<^verbatim>\<open>return null\<close>. A module in which the
  matcher of some verb does not parse defines no function at all; \<^verbatim>\<open>invoke\<close> and \<^verbatim>\<open>fetch\<close>
  below are those of a module that parses.
\<close>

definition match_text :: "router_module \<Rightarrow> string \<Rightarrow> string \<Rightarrow> error + result" where
  "match_text m meth pathname =
     (let p = (if pathname = [] then ''/''
               else if hd pathname \<noteq> CHR ''/'' then CHR ''/'' # pathname else pathname)
      in if \<not> parses (concat (map snd (matchers m))) then Inl SyntaxError
         else (case exec_cases p env0 (toLowerCase meth) False (matchers m) of
                 Fall \<Rightarrow> Inr (Done None)
               | r \<Rightarrow> Inr r))"

text \<open>
  A request, by what the generated code reads of it: the method, the pathname of its URL and
  its \<^verbatim>\<open>Accept\<close> header. The context that \<^verbatim>\<open>invoke\<close> builds: the pathname of the URL, and
  the \<^verbatim>\<open>params\<close> and \<^verbatim>\<open>meta\<close> properties, which are not set at first. A meta is the
  object \<^verbatim>\<open>{}\<close> or what a meta module exports.
\<close>

record request =
  req_method :: string
  req_pathname :: string
  req_accept :: "string option"

datatype 'm metaobj = NoMeta | MetaOf 'm

record 'm rcontext =
  ctx_url :: string
  ctx_params :: "(string \<times> string) list option"
  ctx_meta :: "'m metaobj option"

text \<open>
  The responses of the generated code: what a route handler returned; the 404 page, rendered
  with the input built from the context; the 500 page, rendered with the context and the
  error; the redirect to a pathname; and the JSON response of \<^verbatim>\<open>fetch\<close> with its message and
  stack.
\<close>

datatype ('a, 'e, 'm) response =
    Handled 'a
  | Page404 "'m rcontext"
  | Page500 "'m rcontext" "'e thrown"
  | Redirect string
  | JsonError string string

definition status :: "('a, 'e, 'm) response \<Rightarrow> nat option" where
  "status r =
     (case r of Handled a \<Rightarrow> None | Page404 c \<Rightarrow> Some 404 | Page500 c e \<Rightarrow> Some 500
      | Redirect u \<Rightarrow> Some 302 | JsonError m s \<Rightarrow> Some 500)"

text \<open>What \<^verbatim>\<open>match\<close> returns for a route: its dispatch function, its params and its meta.\<close>

record ('a, 'e, 'm) matched =
  m_handler :: "'m rcontext \<Rightarrow> ('a, 'e) outcome"
  m_params :: "(string \<times> string) list"
  m_meta :: "'m metaobj"

text \<open>\<^verbatim>\<open>s.includes(t)\<close> and \<^verbatim>\<open>headers.get('Accept')?.includes('text/html')\<close>\<close>

fun str_includes :: "string \<Rightarrow> string \<Rightarrow> bool" where
  "str_includes [] t = (t = [])"
| "str_includes (c # cs) t = (take (length t) (c # cs) = t \<or> str_includes cs t)"

definition accepts_html :: "request \<Rightarrow> bool" where
  "accepts_html req = (case req_accept req of None \<Rightarrow> False | Some a \<Rightarrow> str_includes a ''text/html'')"

text \<open>
  \<^verbatim>\<open>invoke(route, request, platform, url)\<close>. The result is what the function returns or
  throws, together with the context as the function leaves it.
  \<^item> \<open>after_route\<close> is the code after the \<^verbatim>\<open>if (route)\<close> statement: the 404 page for a client
    that accepts HTML, when the module has the not-found part; then the function ends.
  \<^item> \<open>on_error\<close> is the outer \<^verbatim>\<open>catch\<close>: the 500 page for a client that accepts HTML, when
    the module has the error-page part; otherwise \<^verbatim>\<open>throw error\<close>.
\<close>

definition after_route ::
  "router_module \<Rightarrow> request \<Rightarrow> 'm rcontext \<Rightarrow> (('a, 'e, 'm) response, 'e) outcome \<times> 'm rcontext" where
  "after_route m req c =
     (if not_found_page m \<and> accepts_html req then (Returned (Some (Page404 c)), c)
      else (Returned None, c))"

definition on_error ::
  "router_module \<Rightarrow> request \<Rightarrow> 'm rcontext \<Rightarrow> 'e thrown
     \<Rightarrow> (('a, 'e, 'm) response, 'e) outcome \<times> 'm rcontext" where
  "on_error m req c err =
     (if error_page m \<and> accepts_html req then (Returned (Some (Page500 c err)), c)
      else (Threw err, c))"

definition invoke ::
  "router_module \<Rightarrow> ('a, 'e, 'm) matched option \<Rightarrow> request \<Rightarrow> string
     \<Rightarrow> (('a, 'e, 'm) response, 'e) outcome \<times> 'm rcontext" where
  "invoke m route req url =
     (let c0 = \<lparr> ctx_url = url, ctx_params = None, ctx_meta = None \<rparr> in
      case route of
        Some r \<Rightarrow>
          (let c = c0 \<lparr> ctx_params := Some (m_params r), ctx_meta := Some (m_meta r) \<rparr> in
           case m_handler r c of
             Returned (Some resp) \<Rightarrow> (Returned (Some (Handled resp)), c)
           | Returned None \<Rightarrow> after_route m req c
           | Threw NotHandled \<Rightarrow> (Returned None, c)
           | Threw NotMatched \<Rightarrow> after_route m req c
           | Threw (Other x) \<Rightarrow> on_error m req c (Other x))
      | None \<Rightarrow>
          (if not_found_page m
           then after_route m req (c0 \<lparr> ctx_params := Some [], ctx_meta := Some NoMeta \<rparr>)
           else after_route m req c0))"

text \<open>
  The trailing-slash code of \<^verbatim>\<open>fetch\<close>, one for each option: a redirect to a pathname
  (\<open>Inl\<close>), or the pathname to go on with (\<open>Inr\<close>).
\<close>

definition endsWith_slash :: "string \<Rightarrow> bool" where
  "endsWith_slash p = (p \<noteq> [] \<and> last p = CHR ''/'')"

definition apply_slashes :: "TrailingSlashes \<Rightarrow> string \<Rightarrow> string + string" where
  "apply_slashes opt pathname =
     (case opt of
        RedirectWithout \<Rightarrow>
          (if pathname \<noteq> ''/'' \<and> endsWith_slash pathname
           then Inl (js_slice pathname 0 (- 1)) else Inr pathname)
      | RedirectWith \<Rightarrow>
          (if pathname \<noteq> ''/'' \<and> \<not> endsWith_slash pathname
           then Inl (pathname @ ''/'') else Inr pathname)
      | RewriteWithout \<Rightarrow>
          (if pathname \<noteq> ''/'' \<and> endsWith_slash pathname
           then Inr (js_slice pathname 0 (- 1)) else Inr pathname)
      | RewriteWith \<Rightarrow>
          (if pathname \<noteq> ''/'' \<and> \<not> endsWith_slash pathname
           then Inr (pathname @ ''/'') else Inr pathname))"

text \<open>
  \<^verbatim>\<open>fetch(request, platform)\<close>. \<open>dev\<close> is \<^verbatim>\<open>import.meta.env.DEV\<close>; \<open>match\<close> is the
  generated \<^verbatim>\<open>match\<close> with the routes it returns. The result is what \<^verbatim>\<open>fetch\<close> returns
  (\<open>Inr\<close>; no response when \<^verbatim>\<open>invoke\<close> returned none), or what \<^verbatim>\<open>fetch\<close> itself throws
  (\<open>Inl\<close>).
  \<^item> \<open>error_response\<close> is the body of the \<^verbatim>\<open>catch\<close> of \<^verbatim>\<open>fetch\<close>. In development mode it
    reads \<^verbatim>\<open>error.message\<close> and \<^verbatim>\<open>error.stack\<close>, which throws a TypeError when what was
    thrown is \<^verbatim>\<open>null\<close> or \<^verbatim>\<open>undefined\<close>; for every other value \<open>message_of\<close> and
    \<open>stack_of\<close> are what the template prints for the two properties. Otherwise it reads
    nothing of what was thrown.
  \<^item> \<open>dispatch\<close> is the code after the trailing-slash code: \<^verbatim>\<open>match\<close>, \<^verbatim>\<open>invoke\<close>, and
    the \<^verbatim>\<open>catch\<close> of \<^verbatim>\<open>fetch\<close>.
\<close>

definition error_response ::
  "bool \<Rightarrow> ('o js_value thrown \<Rightarrow> string) \<Rightarrow> ('o js_value thrown \<Rightarrow> string)
     \<Rightarrow> 'o js_value thrown \<Rightarrow> error + ('a, 'o js_value, 'm) response" where
  "error_response dev message_of stack_of err =
     (if dev then
        (if nullish err then Inl TypeError
         else Inr (JsonError
                (''Internal Server Error ('' @ message_of err @ '')'')
                (''This will only be seen in development mode'' @ [CHR 0x0A, CHR 0x0A] @ stack_of err)))
      else Inr (JsonError ''Internal Server Error'' []))"

definition dispatch ::
  "router_module \<Rightarrow> bool \<Rightarrow> ('o js_value thrown \<Rightarrow> string) \<Rightarrow> ('o js_value thrown \<Rightarrow> string)
     \<Rightarrow> (string \<Rightarrow> string \<Rightarrow> ('a, 'o js_value, 'm) matched option) \<Rightarrow> request \<Rightarrow> string
     \<Rightarrow> error + ('a, 'o js_value, 'm) response option" where
  "dispatch m dev message_of stack_of match req pathname =
     (case fst (invoke m (match (req_method req) pathname) req pathname) of
        Returned r \<Rightarrow> Inr r
      | Threw err \<Rightarrow>
          (case error_response dev message_of stack_of err of
             Inl e \<Rightarrow> Inl e
           | Inr resp \<Rightarrow> Inr (Some resp)))"

definition fetch ::
  "router_module \<Rightarrow> bool \<Rightarrow> ('o js_value thrown \<Rightarrow> string) \<Rightarrow> ('o js_value thrown \<Rightarrow> string)
     \<Rightarrow> (string \<Rightarrow> string \<Rightarrow> ('a, 'o js_value, 'm) matched option) \<Rightarrow> request
     \<Rightarrow> error + ('a, 'o js_value, 'm) response option" where
  "fetch m dev message_of stack_of match req =
     (case apply_slashes (slashes m) (req_pathname req) of
        Inl target \<Rightarrow> Inr (Some (Redirect target))
      | Inr pathname \<Rightarrow> dispatch m dev message_of stack_of match req pathname)"


text \<open>
  A module with both special pages, one with none, a request, a matched route whose handler
  yields a given outcome, and one whose handler throws a given value, for the examples.
\<close>

definition demo_module :: router_module where
  "demo_module =
     \<lparr> route_imports = [], special_imports = [''404'', ''500''], matchers = [],
       not_found_page = True, error_page = True, slashes = RedirectWithout \<rparr>"

definition demo_request :: request where
  "demo_request =
     \<lparr> req_method = ''GET'', req_pathname = ''/foo/'',
       req_accept = Some ''text/html,application/xhtml+xml'' \<rparr>"

definition demo_match :: "(string, string) outcome \<Rightarrow> (string, string, unit) matched" where
  "demo_match result = \<lparr> m_handler = (\<lambda>c. result), m_params = [(''id'', ''7'')], m_meta = NoMeta \<rparr>"

definition failing_route :: "(string, string, unit) matched" where
  "failing_route = demo_match (Threw (Other ''boom''))"

definition throwing_route :: "string js_value \<Rightarrow> (string, string js_value, unit) matched" where
  "throwing_route v = \<lparr> m_handler = (\<lambda>c. Threw (Other v)), m_params = [(''id'', ''7'')], m_meta = NoMeta \<rparr>"

definition plain_module :: router_module where
  "plain_module =
     \<lparr> route_imports = [], special_imports = [], matchers = [],
       not_found_page = False, error_page = False, slashes = RedirectWithout \<rparr>"


section \<open>The priority of the matcher, stated on the trie\<close>

text \<open>
  A pathname as the matcher sees it: segments that are not empty and hold no slash, each
  after a slash, with or without a slash at the end. \<open>rest_path\<close> is the pathname from the
  start of a segment on.
\<close>

definition good_segment :: "string \<Rightarrow> bool" where
  "good_segment s = (s \<noteq> [] \<and> CHR ''/'' \<notin> set s)"

fun rest_path :: "string list \<Rightarrow> bool \<Rightarrow> string" where
  "rest_path [] tr = []"
| "rest_path [s] tr = s @ (if tr then ''/'' else [])"
| "rest_path (s # s' # ss) tr = s @ ''/'' @ rest_path (s' # ss) tr"

text \<open>
  The way of the generated code down the trie, one segment after the other, for a path that
  goes on: into the first literal child (among those with children of their own) whose key is
  the lower-case segment, otherwise into the dynamic child when it has children of its own.
  The result is the node reached, with its level and its offset.
\<close>

fun descend :: "RouteTrie \<Rightarrow> nat \<Rightarrow> offset \<Rightarrow> string list \<Rightarrow> (RouteTrie \<times> nat \<times> offset) option" where
  "descend t level off [] = Some (t, level, off)"
| "descend t level off (s # ss) =
     (let idx = ''i'' @ string_of_nat (level + 1) in
      case find (\<lambda>c. node_key c = toLowerCase s) (children_of t) of
        Some c \<Rightarrow> descend c (level + 1) (child_offset off idx c) ss
      | None \<Rightarrow>
          (if dyn_deeper t then descend (the (dynamic t)) (level + 1) (Name idx) ss else None))"

text \<open>
  What the code of a node yields for the last segment of a path: the route of the first
  terminal child whose key is the lower-case segment, otherwise the route of the dynamic child,
  otherwise it falls through (\<open>end_result\<close>) to the return of the catch-all route or, at
  level 0, of \<^verbatim>\<open>null\<close> (\<open>tail_result\<close>).
\<close>

definition end_result :: "string \<Rightarrow> RouteTrie \<Rightarrow> string \<Rightarrow> result" where
  "end_result verb N s =
     (case find (\<lambda>c. node_key c = toLowerCase s) (terminal_of N) of
        Some c \<Rightarrow> Done (Some (renderMatch verb (the (node_route c)) None))
      | None \<Rightarrow>
          (case dyn_route N of
             Some r \<Rightarrow> Done (Some (renderMatch verb r None))
           | None \<Rightarrow> Fall))"

definition tail_result :: "string \<Rightarrow> RouteTrie \<Rightarrow> nat \<Rightarrow> offset \<Rightarrow> result" where
  "tail_result verb t level off =
     (case catchAll t of
        Some r \<Rightarrow> Done (Some (renderMatch verb r (Some (offset_text off))))
      | None \<Rightarrow> (if level = 0 then Done None else Fall))"

definition final_result :: "string \<Rightarrow> RouteTrie \<Rightarrow> nat \<Rightarrow> offset \<Rightarrow> string \<Rightarrow> result" where
  "final_result verb N level off s =
     (case end_result verb N s of Fall \<Rightarrow> tail_result verb N level off | r \<Rightarrow> r)"

text \<open>
  For the proofs: the value of a decimal digit; an offset that is a name is the index variable
  of the level above; the variables in scope inside the block of a node for a path that goes
  on; and the code of a node without what level 0 puts around it.
\<close>

definition digit_val :: "char \<Rightarrow> nat" where
  "digit_val c = of_char c - 48"

definition offset_ok :: "offset \<Rightarrow> nat \<Rightarrow> bool" where
  "offset_ok off level = (case off of Num n \<Rightarrow> True | Name v \<Rightarrow> v = ''i'' @ string_of_nat level)"

definition inner_env :: "RouteTrie \<Rightarrow> env \<Rightarrow> nat \<Rightarrow> nat \<Rightarrow> string \<Rightarrow> env" where
  "inner_env t e level i s =
     (let e1 = e \<lparr> ivars := (ivars e)(''i'' @ string_of_nat (level + 1) \<mapsto> i) \<rparr>
      in if dyn_names t then e1 \<lparr> svars := (svars e1)(''s'' @ string_of_nat (level + 1) \<mapsto> s) \<rparr> else e1)"

definition subtree_code :: "RouteTrie \<Rightarrow> string \<Rightarrow> nat \<Rightarrow> offset \<Rightarrow> stmt list" where
  "subtree_code t verb level off =
     node_stmts verb t off (level + 1)
       (map (\<lambda>c. (node_key c,
               writeRouterVerb c verb (level + 1) (child_offset off (''i'' @ string_of_nat (level + 1)) c)))
          (children_of t))
       (if dyn_deeper t
        then writeRouterVerb (the (dynamic t)) verb (level + 1) (Name (''i'' @ string_of_nat (level + 1)))
        else [])"

text \<open>
  For the examples: the trie of the routes \<^verbatim>\<open>/item/edit\<close> and \<^verbatim>\<open>/item/$id\<close>; the trie
  of the routes \<^verbatim>\<open>/a/x\<close>, \<^verbatim>\<open>/b/y\<close> and \<^verbatim>\<open>/$p/y\<close>, whose root has two literal
  children with children of their own, so that the generated code has a \<^verbatim>\<open>switch\<close> over
  them; and the trie of the routes \<^verbatim>\<open>/a/x\<close> and \<^verbatim>\<open>/$p/y\<close>, where it has one \<^verbatim>\<open>if\<close>
  instead. The literal children are in the order of the routes.
\<close>

definition leaf_route :: "string \<Rightarrow> string \<Rightarrow> ParamInfo list \<Rightarrow> nat \<Rightarrow> Route" where
  "leaf_route k pth ps i =
     \<lparr> key = k, path = pth, params = Some ps, handler = None,
       page = Some (demo_file k), layouts = [], middleware = [], meta = None, index = i \<rparr>"

definition r_edit :: Route where
  "r_edit = leaf_route ''item.edit'' ''/item/edit'' [] 1"

definition r_id :: Route where
  "r_id = leaf_route ''item.$id'' ''/item/$id'' [\<lparr>name = ''id'', pindex = 1\<rparr>] 2"

definition item_node :: RouteTrie where
  "item_node =
     RouteTrie ''item'' None
       (Some [RouteTrie ''edit'' (Some r_edit) None None None])
       (Some (RouteTrie ''$id'' (Some r_id) None None None))
       None"

definition item_trie :: RouteTrie where
  "item_trie = RouteTrie [] None (Some [item_node]) None None"

definition r_a_x :: Route where
  "r_a_x = leaf_route ''a.x'' ''/a/x'' [] 1"

definition r_b_y :: Route where
  "r_b_y = leaf_route ''b.y'' ''/b/y'' [] 2"

definition r_p_y :: Route where
  "r_p_y = leaf_route ''$p.y'' ''/$p/y'' [\<lparr>name = ''p'', pindex = 0\<rparr>] 3"

definition ax_node :: RouteTrie where
  "ax_node = RouteTrie ''a'' None (Some [RouteTrie ''x'' (Some r_a_x) None None None]) None None"

definition by_node :: RouteTrie where
  "by_node = RouteTrie ''b'' None (Some [RouteTrie ''y'' (Some r_b_y) None None None]) None None"

definition py_node :: RouteTrie where
  "py_node = RouteTrie ''$p'' None (Some [RouteTrie ''y'' (Some r_p_y) None None None]) None None"

definition switch_trie :: RouteTrie where
  "switch_trie = RouteTrie [] None (Some [ax_node, by_node]) (Some py_node) None"

definition if_trie :: RouteTrie where
  "if_trie = RouteTrie [] None (Some [ax_node]) (Some py_node) None"

text \<open>
  Modelled from the spec: when a pathname matches a route pattern, both given by their
  segments. A segment of the pattern that starts with \<^verbatim>\<open>$$\<close> takes the rest of the
  pathname, one that starts with \<^verbatim>\<open>$\<close> takes one segment that is not empty, any other
  segment is compared without regard to case.
\<close>

fun pattern_matches :: "string list \<Rightarrow> string list \<Rightarrow> bool" where
  "pattern_matches [] segs = (segs = [])"
| "pattern_matches (ps # pat) segs =
     (if take 2 ps = ''$$'' then True
      else (case segs of
              [] \<Rightarrow> False
            | s # ss \<Rightarrow>
                (if take 1 ps = ''$'' then s \<noteq> [] else toLowerCase s = toLowerCase ps)
                \<and> pattern_matches pat ss))"

(* ------------------------------------------------------------------ *)
section \<open>Properties of the property names\<close>

lemma class_first_letter: "class_first c = (is_letter c \<or> c = CHR ''_'' \<or> c = CHR ''$'')"
  by (cases c) (simp add: class_first_def is_letter_def in_range_def)

lemma class_rest_letter:
  "class_rest c = (is_letter c \<or> is_digit c \<or> c = CHR ''$'' \<or> c = CHR ''_'')"
  by (cases c) (simp add: class_rest_def is_letter_def is_digit_def in_range_def)

lemma test_at_False: "test_at False cs = list_ex (\<lambda>c. \<not> class_rest c) cs"
  by (induction cs) auto

lemma test_at_True:
  "test_at True nm =
     ((case nm of [] \<Rightarrow> False | c # cs \<Rightarrow> \<not> class_first c) \<or> list_ex (\<lambda>c. \<not> class_rest c) nm)"
  by (cases nm) (auto simp: test_at_False)

lemma wrapPropertyName_key: "wrapPropertyName nm = property_key nm"
  by (simp add: wrapPropertyName_def property_key_def invalid_identifier_def test_at_True
      class_first_letter class_rest_letter cong: list.case_cong)

lemma type_loop_concat:
  "type_loop ps acc = acc @ concat (map (\<lambda>p. '' '' @ property_key (name p) @ '': string;'') ps)"
  by (induction ps arbitrary: acc) (simp_all add: wrapPropertyName_key)

lemma params_loop_closed:
  "sep \<noteq> [] \<Longrightarrow>
   params_loop pathIndex ps (result, ca, sep) =
     (result @ concat (map (\<lambda>p. sep @ '' '' @ property_key (name p) @ '': s'' @ string_of_int (pindex p + 1))
                 (filter (\<lambda>p. pindex p \<ge> 0) ps)),
      (if truthy_opt pathIndex \<and> filter (\<lambda>p. pindex p < 0) ps \<noteq> []
       then last_name (filter (\<lambda>p. pindex p < 0) ps) else ca),
      sep)"
proof (induction ps arbitrary: result ca)
  case Nil
  then show ?case by simp
next
  case (Cons p ps)
  show ?case
  proof (cases "pindex p \<ge> 0")
    case True
    then show ?thesis using Cons by (simp add: wrapPropertyName_key)
  next
    case False
    then show ?thesis using Cons by (auto simp: last_name_def split: list.splits)
  qed
qed

text \<open>
  Claim C10. \<^verbatim>\<open>wrapPropertyName\<close> quotes exactly the names that are not valid identifiers
  (first character not a letter, underscore or dollar sign, or some character outside letters,
  digits, dollar sign and underscore) and leaves every other name as it is; every key of a
  generated params type and of a generated params object is the name wrapped in this way.
\<close>

theorem C10_property_names_quoted:
  "wrapPropertyName nm = (if invalid_identifier nm then squote @ nm @ squote else nm)
   \<and> renderParamsInfoType ps =
       (if ps = [] then ''{}''
        else ''{'' @ concat (map (\<lambda>p. '' '' @ property_key (name p) @ '': string;'') ps) @ '' }'')
   \<and> renderParamsInfo ps pathIndex =
       (if ps = [] then ''{}''
        else
          (let positional =
                 concat (map (\<lambda>p. ''{ '' @ property_key (name p) @ '': s'' @ string_of_int (pindex p + 1))
                   (filter (\<lambda>p. pindex p \<ge> 0) ps));
               rest = (if truthy_opt pathIndex then last_name (filter (\<lambda>p. pindex p < 0) ps) else []);
               result =
                 (if rest \<noteq> [] then
                    positional @ ''{ '' @ property_key rest @ '': pathname.slice('' @ opt_text pathIndex @ '')''
                  else positional)
           in if result \<noteq> [] then result @ '' }'' else ''{}''))"
proof (intro conjI)
  show "wrapPropertyName nm = (if invalid_identifier nm then squote @ nm @ squote else nm)"
    using wrapPropertyName_key [of nm] by (simp add: property_key_def)
next
  show "renderParamsInfoType ps =
       (if ps = [] then ''{}''
        else ''{'' @ concat (map (\<lambda>p. '' '' @ property_key (name p) @ '': string;'') ps) @ '' }'')"
    by (simp add: renderParamsInfoType_def type_loop_concat)
next
  have last_nil: "last_name [] = []" by (simp add: last_name_def)
  show "renderParamsInfo ps pathIndex =
       (if ps = [] then ''{}''
        else
          (let positional =
                 concat (map (\<lambda>p. ''{ '' @ property_key (name p) @ '': s'' @ string_of_int (pindex p + 1))
                   (filter (\<lambda>p. pindex p \<ge> 0) ps));
               rest = (if truthy_opt pathIndex then last_name (filter (\<lambda>p. pindex p < 0) ps) else []);
               result =
                 (if rest \<noteq> [] then
                    positional @ ''{ '' @ property_key rest @ '': pathname.slice('' @ opt_text pathIndex @ '')''
                  else positional)
           in if result \<noteq> [] then result @ '' }'' else ''{}''))"
    by (auto simp: renderParamsInfo_def params_loop_closed wrapPropertyName_key Let_def last_nil)
qed

theorem C10_property_names_quoted_witness:
  "wrapPropertyName ''my-id'' = squote @ ''my-id'' @ squote
   \<and> wrapPropertyName ''id_2'' = ''id_2''
   \<and> renderParamsInfoType [\<lparr>name = ''id'', pindex = 0\<rparr>, \<lparr>name = ''2nd'', pindex = 1\<rparr>]
       = ''{ id: string; '' @ squote @ ''2nd'' @ squote @ '': string; }''"
proof -
  have a: "invalid_identifier ''my-id''" and b: "\<not> invalid_identifier ''id_2''"
    and c: "\<not> invalid_identifier ''id''" and d: "invalid_identifier ''2nd''"
    by (simp_all add: invalid_identifier_def is_letter_def is_digit_def)
  show ?thesis
    using C10_property_names_quoted [of "''my-id''" "[\<lparr>name = ''id'', pindex = 0\<rparr>, \<lparr>name = ''2nd'', pindex = 1\<rparr>]" None]
      C10_property_names_quoted [of "''id_2''" "[]" None]
    by (simp add: a b c d property_key_def)
qed

section \<open>Properties of the dispatch functions\<close>

lemma top_snoc: "top (ms @ [x]) cur = top ms (''__mware'' @ file_id x)"
  by (cases ms) simp_all

lemma chain_snoc:
  "chain (ms @ [x]) cur =
     ConstCall (''__mware'' @ file_id x) (''mware'' @ file_id x) cur # chain ms (''__mware'' @ file_id x)"
  by (induction ms) (simp_all add: top_snoc)

lemma mware_loop_closed:
  "i \<le> length mws \<Longrightarrow>
   mware_loop mws i cur cont =
     (case take i mws of [] \<Rightarrow> cont
      | m0 # ms \<Rightarrow> cont @ chain ms cur @ [ReturnCall (''mware'' @ file_id m0) (top ms cur)])"
proof (induction i arbitrary: cur cont)
  case 0
  then show ?case by simp
next
  case (Suc i)
  then have lt: "i < length mws" by simp
  have tk: "take (Suc i) mws = take i mws @ [mws ! i]"
    using lt by (simp add: take_Suc_conv_app_nth)
  show ?case
  proof (cases "i = 0")
    case True
    then show ?thesis using tk by (simp add: writeMiddleware_def truthy_opt_def)
  next
    case False
    then obtain m0 ms where t: "take i mws = m0 # ms"
      using lt by (cases "take i mws") auto
    have ih: "mware_loop mws i cur' cont' =
        cont' @ chain ms cur' @ [ReturnCall (''mware'' @ file_id m0) (top ms cur')]" for cur' cont'
      using Suc.IH [of cur' cont'] lt t by simp
    show ?thesis
      using False tk t
      by (simp add: ih writeMiddleware_def truthy_opt_def opt_text_def chain_snoc top_snoc Let_def)
  qed
qed

lemma body_with_middleware:
  assumes "writeRouteEntryHandler route verb = Inr f" and "middleware route = m0 # ms"
  shows "fn_body f =
           base_stmts route verb @ chain ms (base_name route verb)
             @ [ReturnCall (''mware'' @ file_id m0) (top ms (base_name route verb))]"
  using assms
  by (auto simp: writeRouteEntryHandler_def finish_handler_def mware_loop_closed base_stmts_def
      base_name_def writePageResponse_def writeMiddleware_def truthy_opt_def opt_text_def Let_def
      simp del: mware_loop.simps split: if_splits)

lemma body_without_middleware:
  assumes "writeRouteEntryHandler route verb = Inr f" and "middleware route = []"
  shows "fn_body f =
           (if page route \<noteq> None \<and> verb = ''get'' then
              (if handler_includes (handler route) verb
               then [ConstPage ''__page'', ReturnCall (verb @ ''Handler'') ''__page'']
               else [ReturnPage])
            else [ReturnCall (verb @ ''Handler'') ''noContent''])"
  using assms
  by (auto simp: writeRouteEntryHandler_def finish_handler_def
      writePageResponse_def writeMiddleware_def truthy_opt_def opt_text_def Let_def split: if_splits)

lemma consts_before_chain: "consts_before (chain ms cur @ rest) = chain_decls ms cur @ consts_before rest"
  by (induction ms arbitrary: rest) simp_all

lemma declared_chain: "declared (chain ms cur @ rest) = map fst (chain_decls ms cur) @ declared rest"
  by (induction ms arbitrary: rest) simp_all

lemma first_return_chain: "first_return (chain ms cur @ rest) = first_return rest"
  by (induction ms arbitrary: rest) simp_all

lemma fst_chain_decls: "map fst (chain_decls ms cur) = rev (map (\<lambda>m. ''__mware'' @ file_id m) ms)"
  by (induction ms) simp_all

lemma eval_name_mono:
  "eval_name call pg g D names k n = Some v \<Longrightarrow> k \<le> k' \<Longrightarrow> eval_name call pg g D names k' n = Some v"
proof (induction k arbitrary: k' n v)
  case 0
  then show ?case by simp
next
  case (Suc k)
  then obtain j where k': "k' = Suc j" and le: "k \<le> j" by (cases k') auto
  show ?case
  proof (cases "map_of D n")
    case None
    then show ?thesis using Suc.prems k' by simp
  next
    case (Some d)
    show ?thesis
    proof (cases d)
      case DPage
      then show ?thesis using Some Suc.prems k' by simp
    next
      case (DCall m nx)
      then obtain w where w: "eval_name call pg g D names k nx = Some w" and v: "v = call m w"
        using Some Suc.prems by auto
      from Suc.IH [OF w le] show ?thesis using Some DCall v k' by simp
    qed
  qed
qed

lemma eval_chain:
  assumes "distinct (map fst D)" and "set (chain_decls ms cur) \<subseteq> set D"
    and "eval_name call pg g D names k0 cur = Some v"
  shows "eval_name call pg g D names (k0 + length ms) (top ms cur)
           = Some (foldr (\<lambda>m r. call (''mware'' @ file_id m) r) ms v)"
  using assms
proof (induction ms)
  case Nil
  then show ?case by simp
next
  case (Cons m ms)
  have "map_of D (''__mware'' @ file_id m) = Some (DCall (''mware'' @ file_id m) (top ms cur))"
    using Cons.prems(1,2) by (intro map_of_is_SomeI) auto
  moreover have "eval_name call pg g D names (k0 + length ms) (top ms cur)
           = Some (foldr (\<lambda>m r. call (''mware'' @ file_id m) r) ms v)"
    using Cons by simp
  ultimately show ?case by simp
qed

lemma handler_not_mware:
  "take 5 verb \<noteq> ''mware'' \<Longrightarrow> verb @ ''Handler'' \<noteq> ''mware'' @ x"
proof
  assume n: "take 5 verb \<noteq> ''mware''" and e: "verb @ ''Handler'' = ''mware'' @ x"
  from e have "take 5 (verb @ ''Handler'') = ''mware''" by simp
  then show False using n
    by (cases verb; cases "tl verb"; cases "tl (tl verb)"; cases "tl (tl (tl verb))";
        cases "tl (tl (tl (tl verb)))") auto
qed

lemma base_names_fresh:
  assumes "take 5 verb \<noteq> ''mware''"
  shows "set (declared (base_stmts route verb)) \<inter> (\<lambda>m. ''__mware'' @ file_id m) ` set ms = {}"
  using assms handler_not_mware [of verb]
  by (auto simp: base_stmts_def)

lemma distinct_base: "distinct (declared (base_stmts route verb))"
  by (auto simp: base_stmts_def)

lemma declared_append: "declared (xs @ ys) = declared xs @ declared ys"
  by (induction xs rule: declared.induct) simp_all

lemma distinct_mware_names:
  "distinct (map file_id ms) \<Longrightarrow> distinct (map (\<lambda>m. ''__mware'' @ file_id m) ms)"
  by (induction ms) auto

lemma eval_base:
  assumes g: "\<not> (page route \<noteq> None \<and> verb = ''get'') \<Longrightarrow> globals ''noContent'' = Some nc"
    and D: "D = consts_before (base_stmts route verb) @ D'"
    and fresh: "''noContent'' \<notin> fst ` set D'" "''noContent'' \<notin> set names"
  shows "eval_name call pg globals D names 2 (base_name route verb)
           = Some (inner_step call pg nc route verb)"
proof -
  have two: "(2::nat) = Suc (Suc 0)" by simp
  have nc: "map_of D' ''noContent'' = None"
    using fresh by (simp add: map_of_eq_None_iff)
  show ?thesis
    unfolding two using g D nc fresh(2)
    by (auto simp: base_stmts_def base_name_def inner_step_def)
qed

lemma chain_length: "length (chain ms cur) = length ms"
  by (induction ms) simp_all

lemma run_dispatch:
  assumes W: "writeRouteEntryHandler route verb = Inr f"
    and dist: "distinct (map file_id (middleware route))"
    and vb: "take 5 verb \<noteq> ''mware''"
    and g: "\<not> (page route \<noteq> None \<and> verb = ''get'') \<Longrightarrow> globals ''noContent'' = Some nc"
  shows "run_function call pg globals (fn_body f)
           = Some (foldr (\<lambda>m r. call (''mware'' @ file_id m) r) (middleware route)
                     (inner_step call pg nc route verb))"
proof (cases "middleware route")
  case Nil
  have "\<not> (page route \<noteq> None \<and> verb = ''get'')
          \<Longrightarrow> eval_name call pg globals [] [] (Suc (Suc 0)) ''noContent'' = Some nc"
    using g by simp
  then show ?thesis
    using body_without_middleware [OF W Nil] Nil g
    by (auto simp: run_function_def inner_step_def)
next
  case (Cons m0 ms)
  let ?bn = "base_name route verb"
  let ?base = "base_stmts route verb"
  let ?ret = "ReturnCall (''mware'' @ file_id m0) (top ms ?bn)"
  have body: "fn_body f = ?base @ chain ms ?bn @ [?ret]"
    using body_with_middleware [OF W Cons] .
  let ?D = "consts_before (fn_body f)"
  let ?names = "declared (fn_body f)"
  have cb_base: "consts_before (?base @ rest) = consts_before ?base @ consts_before rest" for rest
    by (simp add: base_stmts_def)
  have fr_base: "first_return (?base @ rest) = first_return rest" for rest
    by (simp add: base_stmts_def)
  have fst_base: "map fst (consts_before ?base) = declared ?base"
    by (simp add: base_stmts_def)
  have D: "?D = consts_before ?base @ chain_decls ms ?bn"
    using consts_before_chain [of ms ?bn "[?ret]"] by (simp add: body cb_base)
  have names: "?names = declared ?base @ rev (map (\<lambda>m. ''__mware'' @ file_id m) ms)"
    using declared_chain [of ms ?bn "[?ret]"] by (simp add: body declared_append fst_chain_decls)
  have dms: "distinct (map (\<lambda>m. ''__mware'' @ file_id m) ms)"
    using dist Cons by (intro distinct_mware_names) simp
  have dn: "distinct ?names"
    unfolding names using distinct_base [of route verb] dms base_names_fresh [OF vb, of route ms]
    by auto
  have fstD: "map fst ?D = ?names"
    by (simp add: D names fst_base fst_chain_decls)
  have ret: "first_return (fn_body f) = Some ?ret"
    using first_return_chain [of ms ?bn "[?ret]"] by (simp add: body fr_base)
  have nc1: "''noContent'' \<notin> fst ` set (chain_decls ms ?bn)"
  proof -
    have "fst ` set (chain_decls ms ?bn) = set (map fst (chain_decls ms ?bn))" by simp
    then show ?thesis unfolding fst_chain_decls by auto
  qed
  have nc2: "''noContent'' \<notin> set ?names"
    unfolding names by (auto simp: base_stmts_def)
  have e0: "eval_name call pg globals ?D ?names 2 ?bn = Some (inner_step call pg nc route verb)"
    using g D nc1 nc2 by (rule eval_base)
  have e1: "eval_name call pg globals ?D ?names (2 + length ms) (top ms ?bn)
              = Some (foldr (\<lambda>m r. call (''mware'' @ file_id m) r) ms (inner_step call pg nc route verb))"
  proof (rule eval_chain [OF _ _ e0])
    show "distinct (map fst ?D)" using dn fstD by simp
    show "set (chain_decls ms ?bn) \<subseteq> set ?D" by (simp add: D)
  qed
  have le: "2 + length ms \<le> Suc (length (fn_body f))"
    by (simp add: body base_stmts_def chain_length)
  have e2: "eval_name call pg globals ?D ?names (Suc (length (fn_body f))) (top ms ?bn)
              = Some (foldr (\<lambda>m r. call (''mware'' @ file_id m) r) ms (inner_step call pg nc route verb))"
    using eval_name_mono [OF e1 le] .
  show ?thesis
    using dn ret e2 Cons by (simp add: run_function_def)
qed


lemma write_handlers_error:
  "write_handlers route vs = Inl e
     \<Longrightarrow> \<exists>verb. e = Error (''Route '' @ key route @ '' has no handler for '' @ verb @ '' requests'')"
proof (induction vs)
  case Nil
  then show ?case by simp
next
  case (Cons v vs)
  show ?case
  proof (cases "writeRouteEntryHandler route v")
    case (Inl e')
    then have "e' = Error (''Route '' @ key route @ '' has no handler for '' @ v @ '' requests'')"
      by (auto simp: writeRouteEntryHandler_def Let_def split: if_splits)
    with Inl Cons.prems show ?thesis by auto
  next
    case (Inr f)
    with Cons show ?thesis by (auto split: sum.splits)
  qed
qed

text \<open>
  Claim C7. Rendering the template of a route without a page fails with an error that names
  the route key, and compiling the dispatch function of a verb for a route with neither a page
  for that verb (a page, and the verb \<^verbatim>\<open>get\<close>) nor a handler fails with an error that names
  the route key and the verb. Rendering the entry of a route never fails with the error for a
  route without verbs: the test \<^verbatim>\<open>!verbs\<close> is false for every array that \<^verbatim>\<open>getVerbs\<close>
  returns, and for a route whose array of verbs is empty the entry module is returned, with no
  dispatch function in it.
\<close>

theorem C7_entry_guard_never_fires:
  "(page route = None \<longrightarrow>
      renderRouteTemplate route = Inl (Error (''Route '' @ key route @ '' has no page to render'')))
   \<and> (\<not> (page route \<noteq> None \<and> verb = ''get'') \<and> handler route = None \<longrightarrow>
      writeRouteEntryHandler route verb =
        Inl (Error (''Route '' @ key route @ '' has no handler for '' @ verb @ '' requests'')))
   \<and> renderRouteEntry getVerbs route \<noteq>
        Inl (Error (''Route '' @ key route @ '' doesn't have a handler or page for any HTTP verbs''))
   \<and> (getVerbs route = [] \<longrightarrow>
        (\<exists>m. renderRouteEntry getVerbs route = Inr m \<and> dispatchers m = []))"
proof (intro conjI impI)
  assume "page route = None"
  then show "renderRouteTemplate route = Inl (Error (''Route '' @ key route @ '' has no page to render''))"
    by (simp add: renderRouteTemplate_def)
next
  assume "\<not> (page route \<noteq> None \<and> verb = ''get'') \<and> handler route = None"
  then show "writeRouteEntryHandler route verb =
        Inl (Error (''Route '' @ key route @ '' has no handler for '' @ verb @ '' requests''))"
    by (auto simp: writeRouteEntryHandler_def)
next
  show "renderRouteEntry getVerbs route \<noteq>
        Inl (Error (''Route '' @ key route @ '' doesn't have a handler or page for any HTTP verbs''))"
  proof (cases "write_handlers route (getVerbs route)")
    case (Inl e)
    then obtain v where "e = Error (''Route '' @ key route @ '' has no handler for '' @ v @ '' requests'')"
      using write_handlers_error by blast
    with Inl show ?thesis
      by (simp add: renderRouteEntry_def truthy_array_def)
  next
    case (Inr fs)
    then show ?thesis by (simp add: renderRouteEntry_def truthy_array_def)
  qed
next
  assume "getVerbs route = []"
  then show "\<exists>m. renderRouteEntry getVerbs route = Inr m \<and> dispatchers m = []"
    by (simp add: renderRouteEntry_def truthy_array_def)
qed

theorem C7_entry_guard_never_fires_witness:
  "renderRouteTemplate (demo_route \<lparr> page := None, handler := None \<rparr>)
     = Inl (Error ''Route item has no page to render'')
   \<and> writeRouteEntryHandler (demo_route \<lparr> page := None, handler := None \<rparr>) ''put''
     = Inl (Error ''Route item has no handler for put requests'')
   \<and> renderRouteEntry (\<lambda>r. []) (demo_route \<lparr> page := None, handler := None \<rparr>)
     \<noteq> Inl (Error ''Route item doesn't have a handler or page for any HTTP verbs'')
   \<and> renderRouteEntry (\<lambda>r. []) (demo_route \<lparr> page := None, handler := None \<rparr>)
     = Inr \<lparr> runtimeImports = [''call'', ''noContent''],
             middlewareImports = [''mware3'', ''mware4'', ''mware5''],
             handlerConsts = [], pageImport = False, metaExport = None, dispatchers = [] \<rparr>
   \<and> renderRouteEntry (\<lambda>r. []) no_verbs_route
     \<noteq> Inl (Error ''Route item doesn't have a handler or page for any HTTP verbs'')
   \<and> renderRouteEntry (\<lambda>r. []) no_verbs_route
     = Inr \<lparr> runtimeImports = [''normalize'', ''call'', ''noContent''],
             middlewareImports = [],
             handlerConsts = [], pageImport = False, metaExport = None, dispatchers = [] \<rparr>"
proof -
  have a: "renderRouteEntry (\<lambda>r. []) (demo_route \<lparr> page := None, handler := None \<rparr>)
     = Inr \<lparr> runtimeImports = [''call'', ''noContent''],
             middlewareImports = [''mware3'', ''mware4'', ''mware5''],
             handlerConsts = [], pageImport = False, metaExport = None, dispatchers = [] \<rparr>"
    by (simp add: renderRouteEntry_def truthy_array_def demo_route_def demo_file_def)
  have b: "renderRouteEntry (\<lambda>r. []) no_verbs_route
     = Inr \<lparr> runtimeImports = [''normalize'', ''call'', ''noContent''],
             middlewareImports = [],
             handlerConsts = [], pageImport = False, metaExport = None, dispatchers = [] \<rparr>"
    by (simp add: renderRouteEntry_def truthy_array_def no_verbs_route_def demo_route_def demo_file_def)
  show ?thesis
    using C7_entry_guard_never_fires
      [of "demo_route \<lparr> page := None, handler := None \<rparr>" "''put''" "\<lambda>r. []"]
      C7_entry_guard_never_fires [of no_verbs_route "''put''" "\<lambda>r. []"]
      a b
    by (simp add: demo_route_def no_verbs_route_def)
qed

lemma handler_succeeds:
  "(page route \<noteq> None \<and> verb = ''get'') \<or> handler route \<noteq> None
     \<Longrightarrow> \<exists>f. writeRouteEntryHandler route verb = Inr f"
  by (auto simp: writeRouteEntryHandler_def Let_def)

text \<open>
  Claim C8. For a route with a handler and a verb for which no page fallback applies, the
  dispatch function is generated, its first statement is the call of the verb's handler with
  \<^verbatim>\<open>noContent\<close> as the next step (returned directly without middleware, bound to
  \<^verbatim>\<open>__<verb>Handler\<close> with middleware), and running the function yields the middleware
  chain around the call of the handler with what \<^verbatim>\<open>noContent\<close> stands for.
\<close>

theorem C8_noContent_innermost:
  assumes "handler route \<noteq> None" and "\<not> (page route \<noteq> None \<and> verb = ''get'')"
  shows "\<exists>f. writeRouteEntryHandler route verb = Inr f
           \<and> hd (fn_body f) =
               (if middleware route = [] then ReturnCall (verb @ ''Handler'') ''noContent''
                else ConstCall (''__'' @ verb @ ''Handler'') (verb @ ''Handler'') ''noContent'')
           \<and> (distinct (map file_id (middleware route)) \<and> take 5 verb \<noteq> ''mware''
                 \<and> globals ''noContent'' = Some nc \<longrightarrow>
               run_function call pg globals (fn_body f)
                 = Some (foldr (\<lambda>m r. call (''mware'' @ file_id m) r) (middleware route)
                           (call (verb @ ''Handler'') nc)))"
proof -
  obtain f where W: "writeRouteEntryHandler route verb = Inr f"
    using handler_succeeds [of route verb] assms(1) by auto
  have hd: "hd (fn_body f) =
               (if middleware route = [] then ReturnCall (verb @ ''Handler'') ''noContent''
                else ConstCall (''__'' @ verb @ ''Handler'') (verb @ ''Handler'') ''noContent'')"
  proof (cases "middleware route")
    case Nil
    then show ?thesis using body_without_middleware [OF W Nil] assms(2) by auto
  next
    case (Cons m0 ms)
    then show ?thesis using body_with_middleware [OF W Cons] assms(2) by (auto simp: base_stmts_def)
  qed
  have run: "run_function call pg globals (fn_body f)
                 = Some (foldr (\<lambda>m r. call (''mware'' @ file_id m) r) (middleware route)
                           (call (verb @ ''Handler'') nc))"
    if "distinct (map file_id (middleware route))" "take 5 verb \<noteq> ''mware''"
       "globals ''noContent'' = Some nc"
    using run_dispatch [OF W that(1) that(2), of globals nc call pg] that(3) assms(2)
    by (auto simp: inner_step_def)
  show ?thesis using W hd run by blast
qed

theorem C8_noContent_innermost_witness:
  "\<exists>f. writeRouteEntryHandler demo_route ''post'' = Inr f
       \<and> hd (fn_body f) = ConstCall ''__postHandler'' ''postHandler'' ''noContent''
       \<and> run_function (\<lambda>m r. m @ ''('' @ r @ '')'') ''page'' [''noContent'' \<mapsto> ''noContent''] (fn_body f)
           = Some ''mware3(mware4(mware5(postHandler(noContent))))''"
  using C8_noContent_innermost [of demo_route "''post''" "[''noContent'' \<mapsto> ''noContent'']" "''noContent''"
      "\<lambda>m r. m @ ''('' @ r @ '')''" "''page''"]
  by (simp add: demo_route_def demo_file_def)

lemma chain_last:
  "ms \<noteq> [] \<Longrightarrow>
   ConstCall (''__mware'' @ file_id (last ms)) (''mware'' @ file_id (last ms)) cur \<in> set (chain ms cur)"
proof -
  assume "ms \<noteq> []"
  then have "ms = butlast ms @ [last ms]" by simp
  then have "chain ms cur = ConstCall (''__mware'' @ file_id (last ms)) (''mware'' @ file_id (last ms)) cur
                 # chain (butlast ms) (''__mware'' @ file_id (last ms))"
    using chain_snoc [of "butlast ms" "last ms" cur] by simp
  then show ?thesis by simp
qed

text \<open>
  Claim C2. For a route with the middleware \<open>m0 # ms\<close> and a verb it supports, the last
  statement of the dispatch function, its only \<^verbatim>\<open>return\<close>, is the call of the first
  middleware \<open>m0\<close>; the last middleware is called with the handler and page step as its next
  step; and running the function yields the call of \<open>m0\<close> around the calls of the later
  middleware, in declared order, around the handler and page step.
\<close>

theorem C2_middleware_order:
  assumes "(page route \<noteq> None \<and> verb = ''get'') \<or> handler route \<noteq> None"
    and "middleware route = m0 # ms"
  shows "\<exists>f. writeRouteEntryHandler route verb = Inr f
           \<and> last (fn_body f) = ReturnCall (''mware'' @ file_id m0) (top ms (base_name route verb))
           \<and> first_return (fn_body f) = Some (last (fn_body f))
           \<and> (ms \<noteq> [] \<longrightarrow>
                ConstCall (''__mware'' @ file_id (last ms)) (''mware'' @ file_id (last ms))
                  (base_name route verb) \<in> set (fn_body f))
           \<and> (distinct (map file_id (middleware route)) \<and> take 5 verb \<noteq> ''mware''
                 \<and> globals ''noContent'' = Some nc \<longrightarrow>
               run_function call pg globals (fn_body f)
                 = Some (call (''mware'' @ file_id m0)
                           (foldr (\<lambda>m r. call (''mware'' @ file_id m) r) ms
                              (inner_step call pg nc route verb))))"
proof -
  obtain f where W: "writeRouteEntryHandler route verb = Inr f"
    using handler_succeeds [OF assms(1)] by auto
  let ?bn = "base_name route verb"
  let ?ret = "ReturnCall (''mware'' @ file_id m0) (top ms ?bn)"
  have body: "fn_body f = base_stmts route verb @ chain ms ?bn @ [?ret]"
    using body_with_middleware [OF W assms(2)] .
  have l: "last (fn_body f) = ?ret" by (simp add: body)
  have fr: "first_return (fn_body f) = Some (last (fn_body f))"
    by (simp add: body base_stmts_def first_return_chain)
  have mem: "ConstCall (''__mware'' @ file_id (last ms)) (''mware'' @ file_id (last ms)) ?bn
               \<in> set (fn_body f)" if "ms \<noteq> []"
    using chain_last [OF that, of ?bn] by (simp add: body)
  have run: "run_function call pg globals (fn_body f)
                 = Some (call (''mware'' @ file_id m0)
                           (foldr (\<lambda>m r. call (''mware'' @ file_id m) r) ms
                              (inner_step call pg nc route verb)))"
    if "distinct (map file_id (middleware route))" "take 5 verb \<noteq> ''mware''"
       "globals ''noContent'' = Some nc"
    using run_dispatch [OF W that(1) that(2), of globals nc call pg] that(3) assms(2) by simp
  show ?thesis using W l fr mem run by blast
qed

theorem C2_middleware_order_witness:
  "\<exists>f. writeRouteEntryHandler demo_route ''get'' = Inr f
       \<and> last (fn_body f) = ReturnCall ''mware3'' ''__mware4''
       \<and> first_return (fn_body f) = Some (last (fn_body f))
       \<and> ConstCall ''__mware5'' ''mware5'' ''__getHandler'' \<in> set (fn_body f)
       \<and> run_function (\<lambda>m r. m @ ''('' @ r @ '')'') ''page'' [''noContent'' \<mapsto> ''noContent''] (fn_body f)
           = Some ''mware3(mware4(mware5(getHandler(page))))''"
  using C2_middleware_order [of demo_route "''get''" "demo_file ''3''" "[demo_file ''4'', demo_file ''5'']"
      "[''noContent'' \<mapsto> ''noContent'']" "''noContent''" "\<lambda>m r. m @ ''('' @ r @ '')''" "''page''"]
  by (simp add: demo_route_def demo_file_def base_name_def inner_step_def handler_includes_def)

text \<open>
  Claim C3. For a route with a page, the dispatch function of the verb \<^verbatim>\<open>get\<close> is
  generated. With a \<^verbatim>\<open>get\<close> handler, the page render is bound to \<^verbatim>\<open>__page\<close> and the
  handler is called with \<^verbatim>\<open>__page\<close> as its next step, inside the middleware; under the
  runtime's \<^verbatim>\<open>call\<close> as the specification describes it, a response of the handler is the
  result and a handler that declines yields the rendered page. Without a \<^verbatim>\<open>get\<close> handler
  the page render is the innermost step.
\<close>

theorem C3_get_handler_before_page:
  assumes "page route \<noteq> None"
  shows "\<exists>f. writeRouteEntryHandler route ''get'' = Inr f
     \<and> (handler_includes (handler route) ''get'' \<longrightarrow>
          ConstPage ''__page'' \<in> set (fn_body f)
          \<and> (if middleware route = [] then ReturnCall ''getHandler'' ''__page''
              else ConstCall ''__getHandler'' ''getHandler'' ''__page'') \<in> set (fn_body f)
          \<and> (distinct (map file_id (middleware route)) \<longrightarrow>
               run_function call pg globals (fn_body f)
                 = Some (foldr (\<lambda>m r. call (''mware'' @ file_id m) r) (middleware route)
                           (call ''getHandler'' pg)))
          \<and> (middleware route = [] \<longrightarrow>
               (\<forall>r. layers ''getHandler'' rendered = Returned (Some r) \<longrightarrow>
                  run_function (\<lambda>n. call_layer (layers n)) rendered env (fn_body f)
                    = Some (Returned (Some r)))
               \<and> (layers ''getHandler'' rendered = Returned None
                    \<or> layers ''getHandler'' rendered = Threw NotMatched \<longrightarrow>
                  run_function (\<lambda>n. call_layer (layers n)) rendered env (fn_body f)
                    = Some rendered)))
     \<and> (\<not> handler_includes (handler route) ''get'' \<longrightarrow>
          (distinct (map file_id (middleware route)) \<longrightarrow>
             run_function call pg globals (fn_body f)
               = Some (foldr (\<lambda>m r. call (''mware'' @ file_id m) r) (middleware route) pg)))"
proof -
  obtain f where W: "writeRouteEntryHandler route ''get'' = Inr f"
    using handler_succeeds [of route "''get''"] assms by auto
  have vb: "take 5 ''get'' \<noteq> ''mware''" by simp
  have run: "run_function c p g (fn_body f)
           = Some (foldr (\<lambda>m r. c (''mware'' @ file_id m) r) (middleware route)
                     (inner_step c p p route ''get''))"
    if "distinct (map file_id (middleware route))" for c :: "string \<Rightarrow> 'x \<Rightarrow> 'x" and p g
    using run_dispatch [OF W that vb, of g p c p] assms by simp
  have stmts: "ConstPage ''__page'' \<in> set (fn_body f)
          \<and> (if middleware route = [] then ReturnCall ''getHandler'' ''__page''
              else ConstCall ''__getHandler'' ''getHandler'' ''__page'') \<in> set (fn_body f)"
    if "handler_includes (handler route) ''get''"
  proof (cases "middleware route")
    case Nil
    then show ?thesis using body_without_middleware [OF W Nil] assms that by simp
  next
    case (Cons m0 ms)
    then show ?thesis using body_with_middleware [OF W Cons] assms that by (simp add: base_stmts_def)
  qed
  have a: "run_function call pg globals (fn_body f)
                 = Some (foldr (\<lambda>m r. call (''mware'' @ file_id m) r) (middleware route)
                           (call ''getHandler'' pg))"
    if "handler_includes (handler route) ''get''" "distinct (map file_id (middleware route))"
    using run [OF that(2), of call pg globals] that(1) assms by (simp add: inner_step_def)
  have b: "run_function call pg globals (fn_body f)
               = Some (foldr (\<lambda>m r. call (''mware'' @ file_id m) r) (middleware route) pg)"
    if "\<not> handler_includes (handler route) ''get''" "distinct (map file_id (middleware route))"
    using run [OF that(2), of call pg globals] that(1) assms by (simp add: inner_step_def)
  have c: "run_function (\<lambda>n. call_layer (layers n)) rendered env (fn_body f)
             = Some (call_layer (layers ''getHandler'') rendered)"
    if "handler_includes (handler route) ''get''" "middleware route = []"
    using run [of "\<lambda>n. call_layer (layers n)" rendered env] that assms by (simp add: inner_step_def)
  have c1: "run_function (\<lambda>n. call_layer (layers n)) rendered env (fn_body f) = Some (Returned (Some r))"
    if "handler_includes (handler route) ''get''" "middleware route = []"
       "layers ''getHandler'' rendered = Returned (Some r)" for r
    using c [OF that(1,2)] that(3) by (simp add: call_layer_def)
  have c2: "run_function (\<lambda>n. call_layer (layers n)) rendered env (fn_body f) = Some rendered"
    if "handler_includes (handler route) ''get''" "middleware route = []"
       "layers ''getHandler'' rendered = Returned None \<or> layers ''getHandler'' rendered = Threw NotMatched"
    using c [OF that(1,2)] that(3) by (auto simp: call_layer_def)
  show ?thesis using W stmts a b c1 c2 by blast
qed

theorem C3_get_handler_before_page_witness:
  "\<exists>f. writeRouteEntryHandler (demo_route \<lparr> middleware := [] \<rparr>) ''get'' = Inr f
       \<and> ReturnCall ''getHandler'' ''__page'' \<in> set (fn_body f)
       \<and> run_function (\<lambda>n. call_layer (\<lambda>nxt. Threw NotMatched))
             (Returned (Some ''page'') :: (string, unit) outcome) Map.empty (fn_body f)
           = Some (Returned (Some ''page''))
       \<and> run_function (\<lambda>n. call_layer (\<lambda>nxt. Returned (Some ''json'')))
             (Returned (Some ''page'') :: (string, unit) outcome) Map.empty (fn_body f)
           = Some (Returned (Some ''json''))"
proof -
  let ?r = "demo_route \<lparr> middleware := [] \<rparr>"
  let ?pg = "Returned (Some ''page'') :: (string, unit) outcome"
  have p: "page ?r \<noteq> None" and h: "handler_includes (handler ?r) ''get''" and m: "middleware ?r = []"
    by (simp_all add: demo_route_def handler_includes_def demo_file_def)
  obtain f where f: "writeRouteEntryHandler ?r ''get'' = Inr f"
    and s: "ReturnCall ''getHandler'' ''__page'' \<in> set (fn_body f)"
    and a: "run_function (\<lambda>n. call_layer (\<lambda>nxt. Threw NotMatched)) ?pg Map.empty (fn_body f) = Some ?pg"
    using C3_get_handler_before_page [OF p, of "\<lambda>m r. r" "()" "Map.empty"
        "\<lambda>n nxt. Threw NotMatched" ?pg Map.empty] h m
    by auto
  obtain f' where f': "writeRouteEntryHandler ?r ''get'' = Inr f'"
    and b: "run_function (\<lambda>n. call_layer (\<lambda>nxt. Returned (Some ''json''))) ?pg Map.empty (fn_body f')
              = Some (Returned (Some ''json''))"
    using C3_get_handler_before_page [OF p, of "\<lambda>m r. r" "()" "Map.empty"
        "\<lambda>n nxt. Returned (Some ''json'')" ?pg Map.empty] h m
    by auto
  have "f' = f" using f f' by simp
  then show ?thesis using f s a b by auto
qed


section \<open>Properties of the generated router\<close>

lemma slice_butlast: "js_slice p 0 (- 1) = butlast p"
proof -
  have "nat (int (length p) - 1) = length p - 1" by simp
  then show ?thesis
    by (simp add: js_slice_def Let_def butlast_conv_take max_def del: of_nat_diff)
qed

text \<open>
  Claim C9. Without options, \<^verbatim>\<open>renderRouter\<close> generates the module that it generates for
  the option \<^verbatim>\<open>RedirectWithout\<close>: its trailing-slash code redirects a pathname other than
  \<^verbatim>\<open>/\<close> that ends in a slash to the pathname without it.
\<close>

theorem C9_default_options:
  "renderRouter httpVerbs getVerbs hasVerb createRouteTrie routes None
     = renderRouter httpVerbs getVerbs hasVerb createRouteTrie routes
         (Some \<lparr> trailingSlashes = RedirectWithout \<rparr>)
   \<and> (\<forall>m. renderRouter httpVerbs getVerbs hasVerb createRouteTrie routes None = Inr m
          \<longrightarrow> slashes m = RedirectWithout
              \<and> apply_slashes (slashes m) pathname =
                  (if pathname \<noteq> ''/'' \<and> endsWith_slash pathname then Inl (butlast pathname)
                   else Inr pathname))"
  by (auto simp: renderRouter_def apply_slashes_def slice_butlast split: sum.splits)

theorem C9_default_options_witness:
  "renderRouter [''get'', ''post''] (\<lambda>r. []) (\<lambda>r v. True) (\<lambda>rs. Inl (Error ''unused''))
       \<lparr> route_list = [], special = [] \<rparr> None
     = Inr \<lparr> route_imports = [], special_imports = [], matchers = [],
             not_found_page = False, error_page = False, slashes = RedirectWithout \<rparr>
   \<and> apply_slashes RedirectWithout ''/foo/'' = Inl ''/foo''"
  using C9_default_options [of "[''get'', ''post'']" "\<lambda>r. []" "\<lambda>r v. True" "\<lambda>rs. Inl (Error ''unused'')"
      "\<lparr> route_list = [], special = [] \<rparr>" "''/foo/''"]
  by (simp add: renderRouter_def router_imports_def endsWith_slash_def)

text \<open>
  Claim C5. For a pathname other than \<^verbatim>\<open>/\<close>: under \<^verbatim>\<open>RedirectWithout\<close> a pathname that
  ends in a slash is answered by a redirect to the pathname without its last character; under
  \<^verbatim>\<open>RedirectWith\<close> a pathname that does not end in a slash is answered by a redirect to the
  pathname with a slash added; under \<^verbatim>\<open>RewriteWithout\<close> and \<^verbatim>\<open>RewriteWith\<close> the request
  is matched and invoked with the pathname changed in the same way. The pathname \<^verbatim>\<open>/\<close> is
  matched and invoked as it is under every option, and matching and invoking never answers
  with the redirect of \<^verbatim>\<open>fetch\<close>.
\<close>

theorem C5_trailing_slash:
  "(req_pathname req \<noteq> ''/'' \<longrightarrow>
      (slashes m = RedirectWithout \<and> endsWith_slash (req_pathname req) \<longrightarrow>
         fetch m dev message_of stack_of match req = Inr (Some (Redirect (butlast (req_pathname req)))))
    \<and> (slashes m = RedirectWith \<and> \<not> endsWith_slash (req_pathname req) \<longrightarrow>
         fetch m dev message_of stack_of match req = Inr (Some (Redirect (req_pathname req @ ''/''))))
    \<and> (slashes m = RewriteWithout \<and> endsWith_slash (req_pathname req) \<longrightarrow>
         fetch m dev message_of stack_of match req
           = dispatch m dev message_of stack_of match req (butlast (req_pathname req)))
    \<and> (slashes m = RewriteWith \<and> \<not> endsWith_slash (req_pathname req) \<longrightarrow>
         fetch m dev message_of stack_of match req
           = dispatch m dev message_of stack_of match req (req_pathname req @ ''/'')))
   \<and> (req_pathname req = ''/'' \<longrightarrow>
         fetch m dev message_of stack_of match req = dispatch m dev message_of stack_of match req ''/'')
   \<and> dispatch m dev message_of stack_of match req pathname \<noteq> Inr (Some (Redirect target))"
proof -
  have "dispatch m dev message_of stack_of match req pathname \<noteq> Inr (Some (Redirect target))"
    by (auto simp: dispatch_def invoke_def after_route_def on_error_def error_response_def Let_def
        split: option.splits outcome.splits thrown.splits sum.splits)
  moreover have "req_pathname req = ''/'' \<Longrightarrow>
      fetch m dev message_of stack_of match req = dispatch m dev message_of stack_of match req ''/''"
    by (cases "slashes m") (simp_all add: fetch_def apply_slashes_def endsWith_slash_def)
  ultimately show ?thesis
    by (auto simp: fetch_def apply_slashes_def slice_butlast)
qed

theorem C5_trailing_slash_witness:
  "fetch demo_module False (\<lambda>e. ''m'') (\<lambda>e. ''s'') (\<lambda>meth p. Some (throwing_route (JsValue ''boom''))) demo_request
     = Inr (Some (Redirect ''/foo''))
   \<and> fetch (demo_module \<lparr> slashes := RedirectWith \<rparr>) False (\<lambda>e. ''m'') (\<lambda>e. ''s'')
       (\<lambda>meth p. Some (throwing_route (JsValue ''boom''))) (demo_request \<lparr> req_pathname := ''/foo'' \<rparr>)
     = Inr (Some (Redirect ''/foo/''))
   \<and> fetch (demo_module \<lparr> slashes := RewriteWithout \<rparr>) False (\<lambda>e. ''m'') (\<lambda>e. ''s'')
       (\<lambda>meth p. if p = ''/foo'' then Some (throwing_route (JsValue ''boom'')) else None) demo_request
     = Inr (Some (Page500 \<lparr> ctx_url = ''/foo'', ctx_params = Some [(''id'', ''7'')], ctx_meta = Some NoMeta \<rparr>
               (Other (JsValue ''boom''))))
   \<and> fetch (demo_module \<lparr> slashes := RewriteWith \<rparr>) False (\<lambda>e. ''m'') (\<lambda>e. ''s'')
       (\<lambda>meth p. if p = ''/foo/'' then Some (throwing_route (JsValue ''boom'')) else None)
       (demo_request \<lparr> req_pathname := ''/foo'' \<rparr>)
     = Inr (Some (Page500 \<lparr> ctx_url = ''/foo/'', ctx_params = Some [(''id'', ''7'')], ctx_meta = Some NoMeta \<rparr>
               (Other (JsValue ''boom''))))
   \<and> fetch (demo_module \<lparr> slashes := RedirectWith \<rparr>) False (\<lambda>e. ''m'') (\<lambda>e. ''s'')
       (\<lambda>meth p. if p = ''/'' then Some (throwing_route (JsValue ''boom'')) else None)
       (demo_request \<lparr> req_pathname := ''/'' \<rparr>)
     = Inr (Some (Page500 \<lparr> ctx_url = ''/'', ctx_params = Some [(''id'', ''7'')], ctx_meta = Some NoMeta \<rparr>
               (Other (JsValue ''boom''))))"
proof -
  have d: "dispatch (demo_module \<lparr> slashes := sl \<rparr>) False (\<lambda>e. ''m'') (\<lambda>e. ''s'')
             (\<lambda>meth p. if p = q then Some (throwing_route (JsValue ''boom'')) else None) rq q
           = Inr (Some (Page500 \<lparr> ctx_url = q, ctx_params = Some [(''id'', ''7'')], ctx_meta = Some NoMeta \<rparr>
               (Other (JsValue ''boom''))))"
    if "req_accept rq = Some ''text/html,application/xhtml+xml''" for sl q rq
    using that
    by (simp add: dispatch_def invoke_def on_error_def demo_module_def throwing_route_def accepts_html_def Let_def)
  have sl: "slashes demo_module = RedirectWithout" by (simp add: demo_module_def)
  show ?thesis
    using
      C5_trailing_slash [of demo_request demo_module False "\<lambda>e. ''m''" "\<lambda>e. ''s''"
        "\<lambda>meth p. Some (throwing_route (JsValue ''boom''))" "''/''" "''/''"]
      C5_trailing_slash [of "demo_request \<lparr> req_pathname := ''/foo'' \<rparr>"
        "demo_module \<lparr> slashes := RedirectWith \<rparr>" False "\<lambda>e. ''m''" "\<lambda>e. ''s''"
        "\<lambda>meth p. Some (throwing_route (JsValue ''boom''))" "''/''" "''/''"]
      C5_trailing_slash [of demo_request
        "demo_module \<lparr> slashes := RewriteWithout \<rparr>" False "\<lambda>e. ''m''" "\<lambda>e. ''s''"
        "\<lambda>meth p. if p = ''/foo'' then Some (throwing_route (JsValue ''boom'')) else None" "''/''" "''/''"]
      C5_trailing_slash [of "demo_request \<lparr> req_pathname := ''/foo'' \<rparr>"
        "demo_module \<lparr> slashes := RewriteWith \<rparr>" False "\<lambda>e. ''m''" "\<lambda>e. ''s''"
        "\<lambda>meth p. if p = ''/foo/'' then Some (throwing_route (JsValue ''boom'')) else None" "''/''" "''/''"]
      C5_trailing_slash [of "demo_request \<lparr> req_pathname := ''/'' \<rparr>"
        "demo_module \<lparr> slashes := RedirectWith \<rparr>" False "\<lambda>e. ''m''" "\<lambda>e. ''s''"
        "\<lambda>meth p. if p = ''/'' then Some (throwing_route (JsValue ''boom'')) else None" "''/''" "''/''"]
    by (simp add: d demo_request_def endsWith_slash_def sl)
qed

text \<open>
  Claim C4, as amended. When the handler of the matched route throws \<^verbatim>\<open>NotHandled\<close>,
  \<^verbatim>\<open>invoke\<close> returns no response; when it throws \<^verbatim>\<open>NotMatched\<close> or returns a falsy
  result, \<^verbatim>\<open>invoke\<close> goes on to the not-found part (the 404 page when the module has one
  and the client accepts HTML, no response otherwise); any other thrown value reaches the outer
  \<^verbatim>\<open>catch\<close>, which renders the 500 page or throws it again. When no route matched and the
  module has a 404 page, the context gets empty params and an empty meta; when the module has
  no 404 page, the context is left without params and meta and no response is returned.
\<close>

theorem C4_invoke_signals:
  "(m_handler (r :: ('a, 'e, 'm) matched) \<lparr> ctx_url = url, ctx_params = Some (m_params r), ctx_meta = Some (m_meta r) \<rparr>
      = Threw NotHandled \<longrightarrow>
      fst (invoke m (Some r) req url) = Returned None)
   \<and> (m_handler r \<lparr> ctx_url = url, ctx_params = Some (m_params r), ctx_meta = Some (m_meta r) \<rparr>
        = Threw NotMatched
      \<or> m_handler r \<lparr> ctx_url = url, ctx_params = Some (m_params r), ctx_meta = Some (m_meta r) \<rparr>
        = Returned None \<longrightarrow>
      fst (invoke m (Some r) req url) =
        (if not_found_page m \<and> accepts_html req
         then Returned (Some (Page404
                \<lparr> ctx_url = url, ctx_params = Some (m_params r), ctx_meta = Some (m_meta r) \<rparr>))
         else Returned None))
   \<and> (m_handler r \<lparr> ctx_url = url, ctx_params = Some (m_params r), ctx_meta = Some (m_meta r) \<rparr>
        = Threw (Other x) \<longrightarrow>
      fst (invoke m (Some r) req url) =
        (if error_page m \<and> accepts_html req
         then Returned (Some (Page500
                \<lparr> ctx_url = url, ctx_params = Some (m_params r), ctx_meta = Some (m_meta r) \<rparr>
                (Other x)))
         else Threw (Other x)))
   \<and> (not_found_page m \<longrightarrow>
        snd (invoke m None req url :: (('a, 'e, 'm) response, 'e) outcome \<times> 'm rcontext)
          = \<lparr> ctx_url = url, ctx_params = Some [], ctx_meta = Some NoMeta \<rparr>)
   \<and> (\<not> not_found_page m \<longrightarrow>
        (invoke m None req url :: (('a, 'e, 'm) response, 'e) outcome \<times> 'm rcontext)
          = (Returned None, \<lparr> ctx_url = url, ctx_params = None, ctx_meta = None \<rparr>))"
  by (auto simp: invoke_def after_route_def on_error_def Let_def)

theorem C4_invoke_signals_witness:
  "fst (invoke demo_module (Some (demo_match (Threw NotHandled))) demo_request ''/foo'') = Returned None
   \<and> fst (invoke demo_module (Some (demo_match (Threw NotMatched))) demo_request ''/foo'')
       = Returned (Some (Page404
           \<lparr> ctx_url = ''/foo'', ctx_params = Some [(''id'', ''7'')], ctx_meta = Some NoMeta \<rparr>))
   \<and> fst (invoke plain_module (Some failing_route) demo_request ''/foo'') = Threw (Other ''boom'')
   \<and> snd (invoke demo_module None demo_request ''/foo''
            :: ((string, string, unit) response, string) outcome \<times> unit rcontext)
       = \<lparr> ctx_url = ''/foo'', ctx_params = Some [], ctx_meta = Some NoMeta \<rparr>"
proof -
  have acc: "accepts_html demo_request" by (simp add: accepts_html_def demo_request_def)
  have nf: "not_found_page demo_module" "\<not> error_page plain_module"
    by (simp_all add: demo_module_def plain_module_def)
  have a: "fst (invoke demo_module (Some (demo_match (Threw NotHandled))) demo_request ''/foo'')
             = Returned None"
    and d: "snd (invoke demo_module None demo_request ''/foo''
            :: ((string, string, unit) response, string) outcome \<times> unit rcontext)
       = \<lparr> ctx_url = ''/foo'', ctx_params = Some [], ctx_meta = Some NoMeta \<rparr>"
    using C4_invoke_signals [of "demo_match (Threw NotHandled)" "''/foo''" demo_module demo_request "''boom''"]
    by (simp_all add: nf demo_match_def)
  have b: "fst (invoke demo_module (Some (demo_match (Threw NotMatched))) demo_request ''/foo'')
       = Returned (Some (Page404
           \<lparr> ctx_url = ''/foo'', ctx_params = Some [(''id'', ''7'')], ctx_meta = Some NoMeta \<rparr>))"
    using C4_invoke_signals [of "demo_match (Threw NotMatched)" "''/foo''" demo_module demo_request "''boom''"]
    by (simp add: nf acc demo_match_def)
  have c: "fst (invoke plain_module (Some failing_route) demo_request ''/foo'') = Threw (Other ''boom'')"
    using C4_invoke_signals [of failing_route "''/foo''" plain_module demo_request "''boom''"]
    by (simp add: nf failing_route_def demo_match_def)
  show ?thesis using a b c d by simp
qed

text \<open>
  Claim C4 as stated fails for routes without a 404 page: the generated \<^verbatim>\<open>invoke\<close> has no
  \<^verbatim>\<open>else\<close> branch then, and the context of a request that matched no route has neither
  params nor meta.
\<close>

theorem C4_no_context_counterexample:
  "renderRouter [''get''] (\<lambda>r. []) (\<lambda>r v. True) (\<lambda>rs. Inl (Error ''unused''))
       \<lparr> route_list = [], special = [] \<rparr> None
     = Inr plain_module
   \<and> (invoke plain_module None demo_request ''/missing''
         :: ((string, string, unit) response, string) outcome \<times> unit rcontext)
       = (Returned None, \<lparr> ctx_url = ''/missing'', ctx_params = None, ctx_meta = None \<rparr>)"
  by (simp add: renderRouter_def router_imports_def plain_module_def invoke_def after_route_def)

text \<open>
  Claim C6. An error other than the two signals thrown by the handler is answered by the 500
  page, with status 500 and the error in its input, when the module has a 500 page and the
  client accepts HTML, and is thrown again by \<^verbatim>\<open>invoke\<close> otherwise. What \<^verbatim>\<open>invoke\<close>
  throws, \<^verbatim>\<open>fetch\<close> answers with the JSON response of status 500, whose message and stack
  contain those of the error in development mode only; but not every time: in development mode,
  when what was thrown is \<^verbatim>\<open>null\<close> or \<^verbatim>\<open>undefined\<close>, reading its message throws a
  TypeError inside the \<^verbatim>\<open>catch\<close>, and \<^verbatim>\<open>fetch\<close> throws it instead of answering.
\<close>

theorem C6_fetch_throws_for_nullish:
  "(m_handler (r :: ('a, 'o js_value, 'm) matched)
        \<lparr> ctx_url = url, ctx_params = Some (m_params r), ctx_meta = Some (m_meta r) \<rparr>
      = Threw (Other x) \<longrightarrow>
      (error_page m \<and> accepts_html req \<longrightarrow>
         fst (invoke m (Some r) req url)
           = Returned (Some (Page500
               \<lparr> ctx_url = url, ctx_params = Some (m_params r), ctx_meta = Some (m_meta r) \<rparr> (Other x)))
         \<and> status (Page500
               \<lparr> ctx_url = url, ctx_params = Some (m_params r), ctx_meta = Some (m_meta r) \<rparr> (Other x)
               :: ('a, 'o js_value, 'm) response) = Some 500)
      \<and> (\<not> (error_page m \<and> accepts_html req) \<longrightarrow>
         fst (invoke m (Some r) req url) = Threw (Other x)))
   \<and> (apply_slashes (slashes m) (req_pathname req) = Inr pathname
        \<and> fst (invoke m (match (req_method req) pathname) req pathname) = Threw err \<longrightarrow>
        fetch m dev message_of stack_of match req
          = (if dev \<and> nullish err then Inl TypeError
             else Inr (Some (JsonError
                    (if dev then ''Internal Server Error ('' @ message_of err @ '')''
                     else ''Internal Server Error'')
                    (if dev then ''This will only be seen in development mode'' @ [CHR 0x0A, CHR 0x0A]
                                   @ stack_of err
                     else []))))
        \<and> status (JsonError
              (if dev then ''Internal Server Error ('' @ message_of err @ '')''
               else ''Internal Server Error'')
              (if dev then ''This will only be seen in development mode'' @ [CHR 0x0A, CHR 0x0A]
                             @ stack_of err
               else []) :: ('a, 'o js_value, 'm) response) = Some 500)"
  by (auto simp: invoke_def on_error_def Let_def status_def fetch_def dispatch_def error_response_def)

theorem C6_fetch_throws_for_nullish_witness:
  "fst (invoke demo_module (Some (throwing_route (JsValue ''boom''))) demo_request ''/foo'')
     = Returned (Some (Page500
         \<lparr> ctx_url = ''/foo'', ctx_params = Some [(''id'', ''7'')], ctx_meta = Some NoMeta \<rparr>
         (Other (JsValue ''boom''))))
   \<and> fetch plain_module True (\<lambda>e. ''boom'') (\<lambda>e. ''at line 1'') (\<lambda>meth p. Some (throwing_route JsNull))
         (demo_request \<lparr> req_pathname := ''/foo'' \<rparr>)
       = Inl TypeError
   \<and> fetch plain_module True (\<lambda>e. ''boom'') (\<lambda>e. ''at line 1'')
         (\<lambda>meth p. Some (throwing_route JsUndefined)) (demo_request \<lparr> req_pathname := ''/foo'' \<rparr>)
       = Inl TypeError
   \<and> fetch plain_module False (\<lambda>e. ''boom'') (\<lambda>e. ''at line 1'') (\<lambda>meth p. Some (throwing_route JsNull))
         (demo_request \<lparr> req_pathname := ''/foo'' \<rparr>)
       = Inr (Some (JsonError ''Internal Server Error'' []))
   \<and> fetch plain_module True (\<lambda>e. ''boom'') (\<lambda>e. ''at line 1'')
         (\<lambda>meth p. Some (throwing_route (JsValue ''boom''))) (demo_request \<lparr> req_pathname := ''/foo'' \<rparr>)
       = Inr (Some (JsonError ''Internal Server Error (boom)''
                (''This will only be seen in development mode'' @ [CHR 0x0A, CHR 0x0A] @ ''at line 1'')))"
proof -
  have acc: "accepts_html demo_request" by (simp add: accepts_html_def demo_request_def)
  have ep: "error_page demo_module" "\<not> error_page plain_module"
    by (simp_all add: demo_module_def plain_module_def)
  have sl: "apply_slashes (slashes plain_module) ''/foo'' = Inr ''/foo''"
    by (simp add: plain_module_def apply_slashes_def endsWith_slash_def)
  have inv: "fst (invoke plain_module (Some (throwing_route v)) (demo_request \<lparr> req_pathname := ''/foo'' \<rparr>) ''/foo'')
               = Threw (Other v)" for v
    by (simp add: invoke_def on_error_def ep throwing_route_def Let_def)
  have a: "fst (invoke demo_module (Some (throwing_route (JsValue ''boom''))) demo_request ''/foo'')
     = Returned (Some (Page500
         \<lparr> ctx_url = ''/foo'', ctx_params = Some [(''id'', ''7'')], ctx_meta = Some NoMeta \<rparr>
         (Other (JsValue ''boom''))))"
    using C6_fetch_throws_for_nullish [of "throwing_route (JsValue ''boom'')" "''/foo''" "JsValue ''boom''"
        demo_module demo_request "''/foo/''"
        "\<lambda>meth p. Some (throwing_route (JsValue ''boom''))" "NotHandled" False
        "\<lambda>e. ''boom''" "\<lambda>e. ''at line 1''"]
    by (simp add: acc ep throwing_route_def)
  have b: "fetch plain_module dev (\<lambda>e. ''boom'') (\<lambda>e. ''at line 1'') (\<lambda>meth p. Some (throwing_route v))
         (demo_request \<lparr> req_pathname := ''/foo'' \<rparr>)
       = (if dev \<and> nullish (Other v) then Inl TypeError
          else Inr (Some (JsonError
              (if dev then ''Internal Server Error ('' @ ''boom'' @ '')''
               else ''Internal Server Error'')
              (if dev then ''This will only be seen in development mode'' @ [CHR 0x0A, CHR 0x0A]
                             @ ''at line 1''
               else []))))" for dev v
    using C6_fetch_throws_for_nullish [of "throwing_route v" "''/foo''" v plain_module
        "demo_request \<lparr> req_pathname := ''/foo'' \<rparr>" "''/foo''"
        "\<lambda>meth p. Some (throwing_route v)" "Other v" dev "\<lambda>e. ''boom''" "\<lambda>e. ''at line 1''"]
      sl inv [of v]
    by simp
  show ?thesis
    using a b [of True JsNull] b [of True JsUndefined] b [of False JsNull] b [of True "JsValue ''boom''"]
    by (simp add: nullish_def)
qed


section \<open>Properties of the matcher\<close>

lemma takeWhile_segment:
  "CHR ''/'' \<notin> set s \<Longrightarrow> takeWhile (\<lambda>x. x \<noteq> CHR ''/'') (s @ CHR ''/'' # suf) = s"
  by (induction s) auto

lemma takeWhile_all:
  "CHR ''/'' \<notin> set s \<Longrightarrow> takeWhile (\<lambda>x. x \<noteq> CHR ''/'') s = s"
  by (induction s) auto

lemma index_none:
  "drop start p = s \<Longrightarrow> CHR ''/'' \<notin> set s \<Longrightarrow> nat (indexOf p (CHR ''/'') start + 1) = 0"
  by (simp add: indexOf_def Let_def takeWhile_all)

lemma index_found:
  "drop start p = s @ CHR ''/'' # suf \<Longrightarrow> CHR ''/'' \<notin> set s
     \<Longrightarrow> nat (indexOf p (CHR ''/'') start + 1) = start + length s + 1"
  by (simp add: indexOf_def Let_def takeWhile_segment)

lemma length_from_drop: "drop start p = r \<Longrightarrow> r \<noteq> [] \<Longrightarrow> length p = start + length r"
  by (metis add_diff_inverse_nat drop_eq_Nil2 length_drop nat_less_le not_le_imp_less order.asym)

lemma slice_int:
  "0 \<le> a \<Longrightarrow> a \<le> int (length p) \<Longrightarrow> 0 \<le> b \<Longrightarrow> b \<le> int (length p)
     \<Longrightarrow> js_slice p a b = take (nat b - nat a) (drop (nat a) p)"
  by (simp add: js_slice_def Let_def min_def nat_diff_distrib')

lemma slice_whole:
  "drop start p = s \<Longrightarrow> s \<noteq> [] \<Longrightarrow> js_slice p (int start) (int (length p)) = s"
  using length_from_drop [of start p s] by (simp add: slice_int)

lemma slice_segment:
  "drop start p = s @ CHR ''/'' # suf \<Longrightarrow>
   js_slice p (int start) (int (start + length s + 1) - 1) = s"
proof -
  assume d: "drop start p = s @ CHR ''/'' # suf"
  then have len: "length p = start + length s + 1 + length suf"
    using length_from_drop [of start p "s @ CHR ''/'' # suf"] by simp
  show ?thesis using d len by (simp add: slice_int)
qed

lemma slice_minus_one:
  "drop start p = s @ ''/'' \<Longrightarrow> js_slice p (int start) (- 1) = s"
proof -
  assume d: "drop start p = s @ ''/''"
  then have len: "length p = start + length s + 1"
    using length_from_drop [of start p "s @ ''/''"] by simp
  have "js_slice p (int start) (- 1) = js_slice p (int start) (int start + int (length s))"
    using len by (simp add: js_slice_def Let_def)
  then show ?thesis using d len by (simp add: slice_int)
qed

lemma exec_append_tail:
  assumes "\<And>e e'. exec p e ys = exec p e' ys"
  shows "exec p e (xs @ ys) = (case exec p e xs of Fall \<Rightarrow> exec p e ys | r \<Rightarrow> r)"
proof (induction xs arbitrary: e)
  case Nil
  then show ?case by simp
next
  case (Cons x xs)
  show ?case
    using Cons [of e] Cons assms
    by (cases x) (auto split: option.splits result.splits)
qed

lemma exec_cases_terminal:
  "exec_cases p e v False (map (\<lambda>c. (node_key c, [return_match verb (the (node_route c)) None])) cs)
     = (case find (\<lambda>c. node_key c = v) cs of
          None \<Rightarrow> Fall
        | Some c \<Rightarrow> Done (Some (renderMatch verb (the (node_route c)) None)))"
  by (induction cs) (auto simp: return_match_def)

lemma exec_terminal_stmts:
  assumes "eval_str p e v = Some s"
  shows "exec p e (terminal_stmts verb v cs @ rest)
           = (case find (\<lambda>c. node_key c = toLowerCase s) cs of
                None \<Rightarrow> exec p e rest
              | Some c \<Rightarrow> Done (Some (renderMatch verb (the (node_route c)) None)))"
proof (cases "length cs > 1")
  case True
  then show ?thesis
    using assms by (simp add: terminal_stmts_def exec_cases_terminal split: option.splits)
next
  case False
  then consider "cs = []" | c where "cs = [c]"
    by (cases cs; cases "tl cs") auto
  then show ?thesis
    using assms
    by cases (auto simp: terminal_stmts_def eval_cond_def return_match_def)
qed

lemma exec_cases_kids_found:
  "find (\<lambda>c. node_key c = v) cs = Some c \<Longrightarrow> exec p e (f c) = Done x
     \<Longrightarrow> exec_cases p e v False (map (\<lambda>c. (node_key c, f c)) cs) = Done x"
  by (induction cs) (auto split: if_splits)

lemma exec_cases_kids_none:
  "find (\<lambda>c. node_key c = v) cs = None
     \<Longrightarrow> exec_cases p e v False (map (\<lambda>c. (node_key c, f c)) cs) = Fall"
  by (induction cs) (auto split: if_splits)

lemma exec_child_stmts_found:
  assumes "eval_str p e v = Some s"
    and "find (\<lambda>c. node_key c = toLowerCase s) cs = Some c" and "exec p e (f c) = Done x"
  shows "exec p e (child_stmts v (map (\<lambda>c. (node_key c, f c)) cs) @ rest) = Done x"
proof (cases "length cs > 1")
  case True
  then show ?thesis
    using assms by (simp add: child_stmts_def exec_cases_kids_found)
next
  case False
  then consider "cs = []" | c' where "cs = [c']"
    by (cases cs; cases "tl cs") auto
  then show ?thesis
    using assms
    by cases (auto simp: child_stmts_def eval_cond_def split: if_splits)
qed

lemma exec_child_stmts_none:
  assumes "eval_str p e v = Some s"
    and "find (\<lambda>c. node_key c = toLowerCase s) cs = None"
  shows "exec p e (child_stmts v (map (\<lambda>c. (node_key c, f c)) cs) @ rest) = exec p e rest"
proof (cases "length cs > 1")
  case True
  then show ?thesis
    using assms by (simp add: child_stmts_def exec_cases_kids_none)
next
  case False
  then consider "cs = []" | c' where "cs = [c']"
    by (cases cs; cases "tl cs") auto
  then show ?thesis
    using assms
    by cases (auto simp: child_stmts_def eval_cond_def split: if_splits)
qed

lemma digit_val_char: "d < 10 \<Longrightarrow> digit_val (digit_char d) = d"
proof -
  assume "d < 10"
  then have "d \<in> set [0, 1, 2, 3, 4, 5, 6, 7, 8, 9]"
    by (simp add: numeral_eq_Suc less_Suc_eq)
  then show ?thesis
    by (auto simp: digit_val_def digit_char_def)
qed

lemma value_string_of_nat:
  "foldl (\<lambda>acc c. 10 * acc + digit_val c) 0 (string_of_nat n) = n"
proof (induction n rule: string_of_nat.induct)
  case (1 n)
  show ?case
  proof (cases "n < 10")
    case True
    then show ?thesis by (simp add: string_of_nat.simps [of n] digit_val_char)
  next
    case False
    then show ?thesis
      using 1 by (simp add: string_of_nat.simps [of n] digit_val_char)
  qed
qed

lemma string_of_nat_inj: "string_of_nat a = string_of_nat b \<Longrightarrow> a = b"
  by (metis value_string_of_nat)

lemma index_names_differ: "''i'' @ string_of_nat level \<noteq> ''i'' @ string_of_nat (level + 1)"
  using string_of_nat_inj [of level "level + 1"] by auto

lemma eval_offset_update:
  "offset_ok off level \<Longrightarrow>
   eval_offset (e \<lparr> ivars := (ivars e)(''i'' @ string_of_nat (level + 1) \<mapsto> i) \<rparr>) off = eval_offset e off"
  using index_names_differ [of level]
  by (cases off) (auto simp: eval_offset_def offset_ok_def)

lemma terminal_empty: "static N = None \<Longrightarrow> terminal_of N = []"
  by (simp add: terminal_of_def)

lemma children_empty: "static N = None \<Longrightarrow> children_of N = []"
  by (simp add: children_of_def)

lemma dyn_none: "dynamic N = None \<Longrightarrow> dyn_route N = None \<and> \<not> dyn_deeper N \<and> \<not> dyn_names N"
  by (simp add: dyn_route_def dyn_deeper_def dyn_names_def)

lemma exec_at_end_stmts:
  assumes v: "eval_str p e (SliceEnd off idx) = Some s" and s: "s \<noteq> []"
  shows "exec p e (at_end_stmts verb N off idx segment) = end_result verb N s"
proof (cases "dyn_route N")
  case None
  then show ?thesis
    using exec_terminal_stmts [OF v, of verb "terminal_of N" "[]"]
    by (simp add: at_end_stmts_def end_result_def Let_def split: option.splits)
next
  case (Some r)
  let ?e = "e \<lparr> svars := (svars e)(segment \<mapsto> s) \<rparr>"
  have v': "eval_str p ?e (Seg segment) = Some s" by (simp add: eval_str_def)
  show ?thesis
    using Some v s exec_terminal_stmts [OF v', of verb "terminal_of N"
        "[If (NonEmpty (Seg segment)) [return_match verb r None]]"]
    by (simp add: at_end_stmts_def end_result_def Let_def eval_cond_def eval_str_def return_match_def
        split: option.splits)
qed

lemma exec_node_at_end:
  assumes off: "eval_offset e off = Some start" and len: "has_len e" and ok: "offset_ok off level"
    and d: "drop start p = s @ tr" and tr: "tr = [] \<or> tr = ''/''" and s: "good_segment s"
  shows "exec p e (node_stmts verb N off (level + 1) kids dyn_code) = end_result verb N s"
proof (cases "static N \<noteq> None \<or> dynamic N \<noteq> None")
  case False
  then show ?thesis
    by (simp add: node_stmts_def end_result_def terminal_empty dyn_none)
next
  case True
  let ?idx = "''i'' @ string_of_nat (level + 1)"
  let ?seg = "''s'' @ string_of_nat (level + 1)"
  let ?i = "nat (indexOf p (CHR ''/'') start + 1)"
  let ?e = "e \<lparr> ivars := (ivars e)(?idx \<mapsto> ?i) \<rparr>"
  have sne: "s \<noteq> []" and nos: "CHR ''/'' \<notin> set s" using s by (simp_all add: good_segment_def)
  have i: "?i = (if tr = [] then 0 else length p)"
  proof (cases "tr = []")
    case True
    then show ?thesis using index_none [of start p s] d nos by simp
  next
    case False
    then have t: "tr = ''/''" using tr by simp
    then have "?i = start + length s + 1"
      using index_found [of start p s "[]"] d nos by simp
    moreover have "length p = start + length s + 1"
      using length_from_drop [of start p "s @ ''/''"] d t by simp
    ultimately show ?thesis using False by simp
  qed
  have lp: "length p \<noteq> 0" using d sne by auto
  have off': "eval_offset ?e off = Some start"
    using eval_offset_update [OF ok, of e ?i] off by simp
  have v: "eval_str p ?e (SliceEnd off ?idx) = Some s"
  proof (cases "tr = []")
    case True
    then show ?thesis
      using off' i len d sne slice_whole [of start p s] by (simp add: eval_str_def)
  next
    case False
    then have t: "tr = ''/''" using tr by simp
    then show ?thesis
      using off' i lp d slice_minus_one [of start p s] by (simp add: eval_str_def)
  qed
  have at_end: "eval_cond p ?e (AtEnd ?idx) = Some True"
    using i len by (simp add: eval_cond_def)
  have inner: "eval_cond p ?e (Inner ?idx) = Some False"
    using i len by (simp add: eval_cond_def)
  have body: "exec p ?e (at_end_stmts verb N off ?idx ?seg) = end_result verb N s"
    using exec_at_end_stmts [OF v sne] .
  have none: "terminal_of N = [] \<Longrightarrow> dyn_route N = None \<Longrightarrow> end_result verb N s = Fall"
    by (simp add: end_result_def)
  show ?thesis
    using True off at_end inner body none
    by (auto simp: node_stmts_def Let_def split: result.splits)
qed

lemma exec_node_inner:
  assumes off: "eval_offset e off = Some start" and len: "has_len e" and ok: "offset_ok off level"
    and d: "drop start p = s @ CHR ''/'' # suf" and suf: "suf \<noteq> []" and s: "good_segment s"
    and more: "children_of t \<noteq> [] \<or> dyn_deeper t"
  shows "\<exists>v. eval_str p (inner_env t e level (start + length s + 1) s) v = Some s
           \<and> exec p e (node_stmts verb t off (level + 1) kids dyn_code)
             = exec p (inner_env t e level (start + length s + 1) s)
                 (child_stmts v kids @ (if dyn_deeper t then [If (NonEmpty v) dyn_code] else []))"
proof -
  let ?idx = "''i'' @ string_of_nat (level + 1)"
  let ?seg = "''s'' @ string_of_nat (level + 1)"
  let ?i = "start + length s + 1"
  let ?e = "e \<lparr> ivars := (ivars e)(?idx \<mapsto> ?i) \<rparr>"
  let ?v = "if dyn_names t then Seg ?seg else SliceSeg off ?idx"
  let ?e2 = "inner_env t e level ?i s"
  have sne: "s \<noteq> []" and nos: "CHR ''/'' \<notin> set s" using s by (simp_all add: good_segment_def)
  have i: "nat (indexOf p (CHR ''/'') start + 1) = ?i"
    using index_found [OF d nos] .
  have lp: "length p = ?i + length suf"
    using length_from_drop [of start p "s @ CHR ''/'' # suf"] d by simp
  have off': "eval_offset ?e off = Some start"
    using eval_offset_update [OF ok, of e ?i] off by simp
  have v0: "eval_str p ?e (SliceSeg off ?idx) = Some s"
    using off' slice_segment [OF d] by (simp add: eval_str_def)
  have v: "eval_str p ?e2 ?v = Some s"
    using v0 by (simp add: inner_env_def Let_def eval_str_def eval_offset_def)
  have at_end: "eval_cond p ?e (AtEnd ?idx) = Some False"
    using lp len suf by (simp add: eval_cond_def)
  have inner: "eval_cond p ?e (Inner ?idx) = Some True"
    using lp len suf by (simp add: eval_cond_def)
  have st: "static t \<noteq> None \<or> dynamic t \<noteq> None"
    using more by (auto simp: children_of_def dyn_deeper_def split: option.splits)
  have blk: "exec p ?e (inner_stmts t off ?idx ?seg kids dyn_code)
               = exec p ?e2 (child_stmts ?v kids @ (if dyn_deeper t then [If (NonEmpty ?v) dyn_code] else []))"
    using v0 by (simp add: inner_stmts_def inner_env_def Let_def)
  have "exec p e (node_stmts verb t off (level + 1) kids dyn_code)
          = exec p ?e (inner_stmts t off ?idx ?seg kids dyn_code)"
    using st more off i at_end inner
    by (auto simp: node_stmts_def Let_def split: result.splits)
  then show ?thesis using v blk by metis
qed

lemma exec_writeRouterVerb:
  assumes "level = 0 \<longrightarrow> length p > 1"
  shows "exec p e (writeRouterVerb t verb level off)
           = (case exec p (if level = 0 then e \<lparr> has_len := True \<rparr> else e) (subtree_code t verb level off) of
                Fall \<Rightarrow> tail_result verb t level off
              | r \<Rightarrow> r)"
proof -
  define tl where "tl = (case catchAll t of
               Some r \<Rightarrow> [return_match verb r (Some (offset_text off))]
             | None \<Rightarrow> (if level = 0 then [ReturnNull] else []))"
  define node where "node = subtree_code t verb level off"
  have tail: "exec p e1 tl = tail_result verb t level off" for e1
    by (simp add: tl_def tail_result_def return_match_def split: option.splits)
  have app: "exec p e1 (xs @ tl) = (case exec p e1 xs of Fall \<Rightarrow> tail_result verb t level off | r \<Rightarrow> r)"
    for e1 xs
    using exec_append_tail [of p tl e1 xs] tail by (simp split: result.splits)
  have empty: "static t = None \<Longrightarrow> dynamic t = None \<Longrightarrow> node = []"
    by (simp add: node_def subtree_code_def node_stmts_def)
  have code: "writeRouterVerb t verb level off =
      (if level = 0 then
           ConstLen #
           (case node_route t of
              Some r \<Rightarrow> If LenIs1 [return_match verb r None] # node
            | None \<Rightarrow> (if static t \<noteq> None \<or> dynamic t \<noteq> None then [If LenGt1 node] else node))
           @ tl
         else node @ tl)"
    unfolding tl_def node_def subtree_code_def
    by (subst writeRouterVerb.simps) (simp only: Let_def)
  show ?thesis
  proof (cases "level = 0")
    case False
    then show ?thesis unfolding code node_def [symmetric] by (simp add: app)
  next
    case True
    then have lp: "length p > 1" using assms by simp
    show ?thesis
    proof (cases "node_route t")
      case (Some r)
      then show ?thesis
        unfolding code node_def [symmetric] using True lp by (simp add: app eval_cond_def)
    next
      case None
      show ?thesis
      proof (cases "static t \<noteq> None \<or> dynamic t \<noteq> None")
        case st: True
        then show ?thesis
          unfolding code node_def [symmetric] using True None lp tail
          by (simp add: eval_cond_def split: result.splits)
      next
        case False
        then show ?thesis
          unfolding code node_def [symmetric] using True None empty tail by simp
      qed
    qed
  qed
qed

lemma rest_path_nonempty: "segs \<noteq> [] \<Longrightarrow> \<forall>x\<in>set segs. good_segment x \<Longrightarrow> rest_path segs tr \<noteq> []"
  by (induction segs tr rule: rest_path.induct) (auto simp: good_segment_def)

lemma rest_path_Cons:
  "ss \<noteq> [] \<Longrightarrow> rest_path (s # ss) tr = s @ CHR ''/'' # rest_path ss tr"
  by (cases ss) simp_all

lemma final_exec:
  assumes off: "eval_offset e off = Some start" and len: "level > 0 \<longrightarrow> has_len e"
    and ok: "offset_ok off level" and st: "1 \<le> start"
    and d: "drop start p = rest_path [s] tr" and s: "good_segment s"
  shows "exec p e (writeRouterVerb N verb level off) = final_result verb N level off s"
proof -
  let ?e = "if level = 0 then e \<lparr> has_len := True \<rparr> else e"
  have sne: "s \<noteq> []" using s by (simp add: good_segment_def)
  have d': "drop start p = s @ (if tr then ''/'' else [])" using d by simp
  have lp: "length p > 1"
    using length_from_drop [of start p "s @ (if tr then ''/'' else [])"] d' sne st
    by (cases s) auto
  have off': "eval_offset ?e off = Some start"
    using off by (cases off) (simp_all add: eval_offset_def)
  have len': "has_len ?e" using len by simp
  have "exec p ?e (subtree_code N verb level off) = end_result verb N s"
    unfolding subtree_code_def
    by (rule exec_node_at_end [OF off' len' ok d' _ s]) simp
  then show ?thesis
    using exec_writeRouterVerb [of level p e N verb off] lp
    by (simp add: final_result_def)
qed

lemma toLowerCase_length: "length (toLowerCase s) = length s"
  by (simp add: toLowerCase_def)

lemma find_key: "find P xs = Some c \<Longrightarrow> P c"
  by (induction xs) (auto split: if_splits)

lemma descend_exec:
  assumes "descend t level off segs = Some (N, LN, offN)"
    and "\<forall>x\<in>set segs. good_segment x" and "good_segment s"
    and "eval_offset e off = Some start" and "level > 0 \<longrightarrow> has_len e"
    and "offset_ok off level" and "1 \<le> start"
    and "drop start p = rest_path (segs @ [s]) tr"
    and "final_result verb N LN offN s = Done x"
  shows "exec p e (writeRouterVerb t verb level off) = Done x"
  using assms
proof (induction segs arbitrary: t level off e start)
  case Nil
  then show ?case using final_exec [of e off start level p s tr N verb] by simp
next
  case (Cons s0 ss)
  let ?idx = "''i'' @ string_of_nat (level + 1)"
  let ?i = "start + length s0 + 1"
  let ?e = "if level = 0 then e \<lparr> has_len := True \<rparr> else e"
  let ?e2 = "inner_env t ?e level ?i s0"
  let ?suf = "rest_path (ss @ [s]) tr"
  have g0: "good_segment s0" and gs: "\<forall>x\<in>set ss. good_segment x" using Cons.prems(2) by simp_all
  have sufne: "?suf \<noteq> []"
    using rest_path_nonempty [of "ss @ [s]" tr] gs Cons.prems(3) by simp
  have d: "drop start p = s0 @ CHR ''/'' # ?suf"
    using Cons.prems(8) rest_path_Cons [of "ss @ [s]" s0 tr] by simp
  have lp: "length p > 1"
    using length_from_drop [of start p "s0 @ CHR ''/'' # ?suf"] d Cons.prems(7) by simp
  have off': "eval_offset ?e off = Some start"
    using Cons.prems(4) by (cases off) (simp_all add: eval_offset_def)
  have len': "has_len ?e" using Cons.prems(5) by simp
  have d2: "drop ?i p = ?suf"
  proof -
    have "drop ?i p = drop (length s0 + 1) (drop start p)" by (simp add: add.commute add.left_commute)
    then show ?thesis using d by simp
  qed
  have len2: "has_len ?e2" using len' by (simp add: inner_env_def Let_def)
  have iv2: "ivars ?e2 ?idx = Some ?i" by (simp add: inner_env_def Let_def)
  have more: "children_of t \<noteq> [] \<or> dyn_deeper t"
    using Cons.prems(1) by (auto simp: Let_def split: option.splits if_splits)
  let ?kids = "map (\<lambda>c. (node_key c, writeRouterVerb c verb (level + 1) (child_offset off ?idx c)))
                 (children_of t)"
  let ?dyn = "if dyn_deeper t then writeRouterVerb (the (dynamic t)) verb (level + 1) (Name ?idx) else []"
  obtain v where v: "eval_str p ?e2 v = Some s0"
    and node: "exec p ?e (node_stmts verb t off (level + 1) ?kids ?dyn)
                 = exec p ?e2 (child_stmts v ?kids @ (if dyn_deeper t then [If (NonEmpty v) ?dyn] else []))"
    using exec_node_inner [OF off' len' Cons.prems(6) d sufne g0 more, of verb ?kids ?dyn] by blast
  have inner: "exec p ?e2 (child_stmts v ?kids @ (if dyn_deeper t then [If (NonEmpty v) ?dyn] else [])) = Done x"
  proof (cases "find (\<lambda>c. node_key c = toLowerCase s0) (children_of t)")
    case (Some c)
    then have desc: "descend c (level + 1) (child_offset off ?idx c) ss = Some (N, LN, offN)"
      using Cons.prems(1) by (simp add: Let_def)
    have key: "node_key c = toLowerCase s0" using find_key [OF Some] .
    have co: "eval_offset ?e2 (child_offset off ?idx c) = Some ?i"
    proof (cases off)
      case (Num n)
      then show ?thesis
        using Cons.prems(4) key by (simp add: child_offset_def eval_offset_def toLowerCase_length)
    next
      case (Name w)
      then show ?thesis using iv2 by (simp add: child_offset_def eval_offset_def)
    qed
    have cok: "offset_ok (child_offset off ?idx c) (level + 1)"
      by (cases off) (simp_all add: child_offset_def offset_ok_def)
    have "exec p ?e2 (writeRouterVerb c verb (level + 1) (child_offset off ?idx c)) = Done x"
      using Cons.IH [OF desc gs Cons.prems(3) co _ cok _ d2 Cons.prems(9)] len2 by simp
    then show ?thesis
      using exec_child_stmts_found [OF v Some, of
          "\<lambda>c. writeRouterVerb c verb (level + 1) (child_offset off ?idx c)" x]
      by simp
  next
    case None
    then have dd: "dyn_deeper t"
      and desc: "descend (the (dynamic t)) (level + 1) (Name ?idx) ss = Some (N, LN, offN)"
      using Cons.prems(1) by (auto simp: Let_def split: if_splits)
    have co: "eval_offset ?e2 (Name ?idx) = Some ?i" using iv2 by (simp add: eval_offset_def)
    have cok: "offset_ok (Name ?idx) (level + 1)" by (simp add: offset_ok_def)
    have rec: "exec p ?e2 (writeRouterVerb (the (dynamic t)) verb (level + 1) (Name ?idx)) = Done x"
      using Cons.IH [OF desc gs Cons.prems(3) co _ cok _ d2 Cons.prems(9)] len2 by simp
    have ne: "s0 \<noteq> []" using g0 by (simp add: good_segment_def)
    show ?thesis
      using exec_child_stmts_none [OF v None, of
          "\<lambda>c. writeRouterVerb c verb (level + 1) (child_offset off ?idx c)"
          "[If (NonEmpty v) ?dyn]"] dd rec v ne
      by (simp add: eval_cond_def)
  qed
  have "exec p ?e (subtree_code t verb level off) = Done x"
    unfolding subtree_code_def using node inner by simp
  then show ?case
    using exec_writeRouterVerb [of level p e t verb off] lp by simp
qed

lemma find_distinct:
  "distinct (map f xs) \<Longrightarrow> c \<in> set xs \<Longrightarrow> f c = k \<Longrightarrow> find (\<lambda>c. f c = k) xs = Some c"
  by (induction xs) (auto split: if_splits)

lemma find_absent: "\<forall>c\<in>set xs. f c \<noteq> k \<Longrightarrow> find (\<lambda>c. f c = k) xs = None"
  by (induction xs) auto

lemma matcher_descend:
  assumes "descend trie 0 (Num 1) segs = Some (N, level, off)"
    and "\<forall>x\<in>set segs. good_segment x" and "good_segment s"
    and "final_result verb N level off s = Done x"
    and "parses (writeRouterVerb trie verb 0 (Num 1))"
  shows "matcher trie verb (''/'' @ rest_path (segs @ [s]) tr) = Inr (Done x)"
proof -
  have "exec (''/'' @ rest_path (segs @ [s]) tr) env0 (writeRouterVerb trie verb 0 (Num 1)) = Done x"
    by (rule descend_exec [OF assms(1) assms(2) assms(3) _ _ _ _ _ assms(4), where start = 1])
       (simp_all add: eval_offset_def env0_def offset_ok_def)
  then show ?thesis
    unfolding matcher_def Let_def using assms(5) by (simp only: if_True)
qed

text \<open>
  The priority at the node that the descent reaches. Let the leading segments of a pathname
  lead the generated matcher to a node, in a module that parses, and let \<open>s\<close> be the last
  segment. When a terminal literal child of the node has the lower-case \<open>s\<close> as its key, the
  matcher returns the route of that child, whether or not the node has a dynamic route or a
  catch-all route, and whatever the order of the children (their keys being distinct). When no
  terminal literal child has that key, the matcher returns the route of the dynamic child; and
  when there is none either, the catch-all route of the node.
\<close>

lemma priority_at_node:
  assumes "\<forall>x\<in>set segs. good_segment x" and "good_segment s"
    and "descend trie 0 (Num 1) segs = Some (N, level, off)"
    and "parses (writeRouterVerb trie verb 0 (Num 1))"
  shows "(\<forall>c r. c \<in> set (terminal_of N) \<and> node_key c = toLowerCase s \<and> node_route c = Some r
              \<and> distinct (map node_key (terminal_of N)) \<longrightarrow>
            matcher trie verb (''/'' @ rest_path (segs @ [s]) tr)
              = Inr (Done (Some (renderMatch verb r None))))
       \<and> ((\<forall>c\<in>set (terminal_of N). node_key c \<noteq> toLowerCase s) \<longrightarrow>
            (\<forall>r. dyn_route N = Some r \<longrightarrow>
               matcher trie verb (''/'' @ rest_path (segs @ [s]) tr)
                 = Inr (Done (Some (renderMatch verb r None))))
          \<and> (dyn_route N = None \<longrightarrow>
               (\<forall>r. catchAll N = Some r \<longrightarrow>
                  matcher trie verb (''/'' @ rest_path (segs @ [s]) tr)
                    = Inr (Done (Some (renderMatch verb r (Some (offset_text off))))))))"
proof -
  let ?p = "''/'' @ rest_path (segs @ [s]) tr"
  have run: "matcher trie verb ?p = Inr (Done x)" if "final_result verb N level off s = Done x" for x
    using matcher_descend [OF assms(3) assms(1) assms(2) that assms(4)] .
  have a: "matcher trie verb ?p = Inr (Done (Some (renderMatch verb r None)))"
    if "c \<in> set (terminal_of N)" "node_key c = toLowerCase s" "node_route c = Some r"
       "distinct (map node_key (terminal_of N))" for c r
  proof -
    have "find (\<lambda>c. node_key c = toLowerCase s) (terminal_of N) = Some c"
      using find_distinct [OF that(4) that(1) that(2)] .
    then show ?thesis using that(3) by (intro run) (simp add: final_result_def end_result_def)
  qed
  have b: "matcher trie verb ?p = Inr (Done (Some (renderMatch verb r None)))"
    if "\<forall>c\<in>set (terminal_of N). node_key c \<noteq> toLowerCase s" "dyn_route N = Some r" for r
  proof -
    have "find (\<lambda>c. node_key c = toLowerCase s) (terminal_of N) = None"
      using find_absent [OF that(1)] .
    then show ?thesis using that(2) by (intro run) (simp add: final_result_def end_result_def)
  qed
  have c: "matcher trie verb ?p = Inr (Done (Some (renderMatch verb r (Some (offset_text off)))))"
    if "\<forall>c\<in>set (terminal_of N). node_key c \<noteq> toLowerCase s" "dyn_route N = None"
       "catchAll N = Some r" for r
  proof -
    have "find (\<lambda>c. node_key c = toLowerCase s) (terminal_of N) = None"
      using find_absent [OF that(1)] .
    then show ?thesis
      using that(2,3) by (intro run) (simp add: final_result_def end_result_def tail_result_def)
  qed
  show ?thesis using a b c by blast
qed

lemmas trie_defs =
  children_of_def terminal_of_def has_deeper_def dyn_deeper_def dyn_names_def dyn_route_def
  node_stmts_def at_end_stmts_def inner_stmts_def terminal_stmts_def child_stmts_def
  child_offset_def return_match_def offset_text_def Let_def

lemmas run_defs = eval_cond_def eval_str_def eval_offset_def js_slice_def indexOf_def env0_def

lemma rendered:
  "renderMatch ''get'' r_edit None = ''{ handler: get1, params: {}, meta: {} }''"
  "renderMatch ''get'' r_id None = ''{ handler: get2, params: { id: s2 }, meta: {} }''"
  "renderMatch ''get'' r_a_x None = ''{ handler: get1, params: {}, meta: {} }''"
  "renderMatch ''get'' r_b_y None = ''{ handler: get2, params: {}, meta: {} }''"
  "renderMatch ''get'' r_p_y None = ''{ handler: get3, params: { p: s1 }, meta: {} }''"
  "path r_edit = ''/item/edit''" "path r_id = ''/item/$id''"
  "path r_a_x = ''/a/x''" "path r_b_y = ''/b/y''" "path r_p_y = ''/$p/y''"
  by code_simp+

lemma lowered:
  "toLowerCase ''a'' = ''a''" "toLowerCase ''b'' = ''b''" "toLowerCase ''x'' = ''x''"
  "toLowerCase ''y'' = ''y''"
  "toLowerCase ''Edit'' = ''edit''" "toLowerCase ''42'' = ''42''"
  by code_simp+

lemma code_leaf_parent:
  "writeRouterVerb (RouteTrie k None (Some [RouteTrie k' (Some r) None None None]) None None) verb (Suc 0) off
   = [ConstIndex ''i2'' off,
      If (AtEnd ''i2'') [If (EqLower (SliceEnd off ''i2'') k') [Return (renderMatch verb r None) (path r)]]]"
  by (subst writeRouterVerb.simps) (simp add: trie_defs string_of_nat.simps digit_char_def)

lemma code_switch_trie:
  "writeRouterVerb switch_trie ''get'' 0 (Num 1) =
     [ConstLen,
      If LenGt1
        [ConstIndex ''i1'' (Num 1),
         If (Inner ''i1'')
           [ConstSeg ''s1'' (SliceSeg (Num 1) ''i1''),
            Switch (Seg ''s1'')
              [(''a'', [ConstIndex ''i2'' (Num 3),
                        If (AtEnd ''i2'')
                          [If (EqLower (SliceEnd (Num 3) ''i2'') ''x'')
                             [Return ''{ handler: get1, params: {}, meta: {} }'' ''/a/x'']]]),
               (''b'', [ConstIndex ''i2'' (Num 3),
                        If (AtEnd ''i2'')
                          [If (EqLower (SliceEnd (Num 3) ''i2'') ''y'')
                             [Return ''{ handler: get2, params: {}, meta: {} }'' ''/b/y'']]])],
            If (NonEmpty (Seg ''s1''))
              [ConstIndex ''i2'' (Name ''i1''),
               If (AtEnd ''i2'')
                 [If (EqLower (SliceEnd (Name ''i1'') ''i2'') ''y'')
                    [Return ''{ handler: get3, params: { p: s1 }, meta: {} }'' ''/$p/y'']]]]],
      ReturnNull]"
  by (subst writeRouterVerb.simps)
     (simp add: trie_defs string_of_nat.simps digit_char_def switch_trie_def ax_node_def by_node_def
        py_node_def code_leaf_parent rendered)

lemma code_if_trie:
  "writeRouterVerb if_trie ''get'' 0 (Num 1) =
     [ConstLen,
      If LenGt1
        [ConstIndex ''i1'' (Num 1),
         If (Inner ''i1'')
           [ConstSeg ''s1'' (SliceSeg (Num 1) ''i1''),
            If (EqLower (Seg ''s1'') ''a'')
              [ConstIndex ''i2'' (Num 3),
               If (AtEnd ''i2'')
                 [If (EqLower (SliceEnd (Num 3) ''i2'') ''x'')
                    [Return ''{ handler: get1, params: {}, meta: {} }'' ''/a/x'']]],
            If (NonEmpty (Seg ''s1''))
              [ConstIndex ''i2'' (Name ''i1''),
               If (AtEnd ''i2'')
                 [If (EqLower (SliceEnd (Name ''i1'') ''i2'') ''y'')
                    [Return ''{ handler: get3, params: { p: s1 }, meta: {} }'' ''/$p/y'']]]]],
      ReturnNull]"
  by (subst writeRouterVerb.simps)
     (simp add: trie_defs string_of_nat.simps digit_char_def if_trie_def ax_node_def
        py_node_def code_leaf_parent rendered)

text \<open>
  Claim C1. The generated matcher does not keep to the priority of literal exact match, then
  dynamic segment, then catch-all, when a node has two or more literal children with children
  of their own: they become the cases of a \<^verbatim>\<open>switch\<close> that have no \<^verbatim>\<open>break\<close>, so a case
  that returns nothing runs on into the next one. With the routes \<^verbatim>\<open>/a/x\<close>, \<^verbatim>\<open>/b/y\<close> and
  \<^verbatim>\<open>/$p/y\<close> the pathname \<^verbatim>\<open>/a/y\<close> matches the route \<^verbatim>\<open>/$p/y\<close> only; the matcher tries
  the literal \<^verbatim>\<open>a\<close> first, and then, instead of the dynamic segment, the code of the literal
  \<^verbatim>\<open>b\<close>, and returns the route \<^verbatim>\<open>/b/y\<close>, which the pathname does not match. Without the
  route \<^verbatim>\<open>/b/y\<close> the literal child is tested by an \<^verbatim>\<open>if\<close>, and the matcher returns the
  route \<^verbatim>\<open>/$p/y\<close>, as the priority says. Every match expression of both modules parses.
\<close>

theorem C1_switch_runs_into_next_case:
  "matcher switch_trie ''get'' ''/a/y'' = Inr (Done (Some ''{ handler: get2, params: {}, meta: {} }''))
   \<and> renderMatch ''get'' r_b_y None = ''{ handler: get2, params: {}, meta: {} }''
   \<and> \<not> pattern_matches [''b'', ''y''] [''a'', ''y'']
   \<and> pattern_matches [''$p'', ''y''] [''a'', ''y'']
   \<and> matcher if_trie ''get'' ''/a/y'' = Inr (Done (Some ''{ handler: get3, params: { p: s1 }, meta: {} }''))
   \<and> renderMatch ''get'' r_p_y None = ''{ handler: get3, params: { p: s1 }, meta: {} }''
   \<and> matcher switch_trie ''get'' ''/a/x'' = Inr (Done (Some ''{ handler: get1, params: {}, meta: {} }''))
   \<and> matcher switch_trie ''get'' ''/b/y'' = Inr (Done (Some ''{ handler: get2, params: {}, meta: {} }''))"
proof -
  have p: "\<not> pattern_matches [''b'', ''y''] [''a'', ''y'']" "pattern_matches [''$p'', ''y''] [''a'', ''y'']"
    by code_simp+
  have ok: "parses (writeRouterVerb switch_trie ''get'' 0 (Num 1))"
    "parses (writeRouterVerb if_trie ''get'' 0 (Num 1))"
    unfolding code_switch_trie code_if_trie by (simp_all add: parses_def balanced_def)
  have s: "exec ''/a/y'' env0 (writeRouterVerb switch_trie ''get'' 0 (Num 1))
             = Done (Some ''{ handler: get2, params: {}, meta: {} }'')"
    unfolding code_switch_trie by (simp add: run_defs lowered)
  have i: "exec ''/a/y'' env0 (writeRouterVerb if_trie ''get'' 0 (Num 1))
             = Done (Some ''{ handler: get3, params: { p: s1 }, meta: {} }'')"
    unfolding code_if_trie by (simp add: run_defs lowered)
  have x: "exec ''/a/x'' env0 (writeRouterVerb switch_trie ''get'' 0 (Num 1))
             = Done (Some ''{ handler: get1, params: {}, meta: {} }'')"
    unfolding code_switch_trie by (simp add: run_defs lowered)
  have y: "exec ''/b/y'' env0 (writeRouterVerb switch_trie ''get'' 0 (Num 1))
             = Done (Some ''{ handler: get2, params: {}, meta: {} }'')"
    unfolding code_switch_trie by (simp add: run_defs lowered)
  show ?thesis
    unfolding matcher_def Let_def using p ok s i x y by (simp only: if_True rendered) simp
qed

lemma descend_item: "descend item_trie 0 (Num 1) [''item''] = Some (item_node, 1, Num 6)"
  by code_simp

lemma code_item_trie:
  "writeRouterVerb item_trie ''get'' 0 (Num 1) =
     [ConstLen,
      If LenGt1
        [ConstIndex ''i1'' (Num 1),
         If (Inner ''i1'')
           [If (EqLower (SliceSeg (Num 1) ''i1'') ''item'')
              [ConstIndex ''i2'' (Num 6),
               If (AtEnd ''i2'')
                 [ConstSeg ''s2'' (SliceEnd (Num 6) ''i2''),
                  If (EqLower (Seg ''s2'') ''edit'')
                    [Return ''{ handler: get1, params: {}, meta: {} }'' ''/item/edit''],
                  If (NonEmpty (Seg ''s2''))
                    [Return ''{ handler: get2, params: { id: s2 }, meta: {} }'' ''/item/$id'']]]]],
      ReturnNull]"
proof -
  have inner: "writeRouterVerb item_node ''get'' (Suc 0) off =
      [ConstIndex ''i2'' off,
       If (AtEnd ''i2'')
         [ConstSeg ''s2'' (SliceEnd off ''i2''),
          If (EqLower (Seg ''s2'') ''edit'')
            [Return ''{ handler: get1, params: {}, meta: {} }'' ''/item/edit''],
          If (NonEmpty (Seg ''s2''))
            [Return ''{ handler: get2, params: { id: s2 }, meta: {} }'' ''/item/$id'']]]" for off
    by (subst writeRouterVerb.simps)
       (simp add: trie_defs string_of_nat.simps digit_char_def item_node_def rendered)
  have deeper: "has_deeper item_node" "node_route item_node = None" "node_key item_node = ''item''"
    by (simp_all add: has_deeper_def item_node_def)
  show ?thesis
    by (subst writeRouterVerb.simps)
       (simp add: children_of_def terminal_of_def dyn_deeper_def dyn_names_def dyn_route_def
          node_stmts_def inner_stmts_def child_stmts_def child_offset_def Let_def
          string_of_nat.simps digit_char_def item_trie_def inner deeper)
qed

lemma priority_at_node_example:
  "matcher item_trie ''get'' ''/item/Edit'' = Inr (Done (Some ''{ handler: get1, params: {}, meta: {} }''))
   \<and> matcher item_trie ''get'' ''/item/42/''
       = Inr (Done (Some ''{ handler: get2, params: { id: s2 }, meta: {} }''))"
proof -
  have g: "\<forall>x\<in>set [''item'']. good_segment x" "good_segment ''Edit''" "good_segment ''42''"
    by (simp_all add: good_segment_def)
  have t: "terminal_of item_node = [RouteTrie ''edit'' (Some r_edit) None None None]"
    "dyn_route item_node = Some r_id"
    by (simp_all add: terminal_of_def item_node_def dyn_route_def)
  have ok: "parses (writeRouterVerb item_trie ''get'' 0 (Num 1))"
    unfolding code_item_trie by (simp add: parses_def balanced_def)
  have a: "matcher item_trie ''get'' ''/item/Edit'' = Inr (Done (Some (renderMatch ''get'' r_edit None)))"
    using priority_at_node [OF g(1) g(2) descend_item ok, of False] t lowered by simp
  have b: "matcher item_trie ''get'' ''/item/42/'' = Inr (Done (Some (renderMatch ''get'' r_id None)))"
    using priority_at_node [OF g(1) g(3) descend_item ok, of True] t lowered by simp
  show ?thesis using a b by (simp add: rendered)
qed


end
